theory Spec2Isabelle
  imports Main
begin

section \<open>Data model of \<open>study_planner.py\<close>\<close>

text \<open>
  The allocation engine works on Python integers (unbounded, hence \<open>int\<close>).  A row of the
  per-day table is the dictionary \<open>dict(learn=0, exo=0, review=0, mock=0)\<close>; its four keys
  are fixed, so it is a record, and the key used by \<open>push\<close> is a value of \<open>kind\<close>.
\<close>

datatype kind = Learn | Exo | Review | Mock

record day_alloc =
  learn :: int
  exo :: int
  review :: int
  mock :: int

record Constraints =
  days_available :: int
  max_minutes_per_day :: int
  min_minutes_per_day :: int
  blocked_days :: "int list option"

text \<open>
  \<open>PlanItem.date\<close> is the ISO rendering of \<open>start_date + timedelta(days=d)\<close>.  A calendar
  date is modelled by its proleptic ordinal (\<open>date.toordinal()\<close>, from 1 for 0001-01-01 to
  3652059 for 9999-12-31), so the field holds the ordinal of the start date plus the day
  index, or \<open>None\<close> when no start date is given.
\<close>

record PlanItem =
  day_index :: int
  date :: "int option"
  learn_min :: int
  exercises_min :: int
  review_min :: int
  mock_min :: int

record PlanResult =
  total_minutes :: int
  per_day :: "PlanItem list"
  breakdown :: "(string \<times> int) list"

text \<open>
  The exceptions of the modelled code: \<open>IndexError\<close> from indexing the per-day table,
  \<open>OverflowError\<close> from \<open>start_date + timedelta(days=d)\<close> when the sum is not a date, and
  \<open>ValueError\<close> from the learning estimator on an unknown \<open>unit_type\<close>.
\<close>

datatype error = IndexError | OverflowError | ValueError

definition zero_day :: day_alloc where
  "zero_day = \<lparr>learn = 0, exo = 0, review = 0, mock = 0\<rparr>"

text \<open>\<open>per_day[d][kind]\<close>, \<open>per_day[d][kind] += a\<close> and \<open>sum(per_day[d].values())\<close>.\<close>

fun bucket :: "kind \<Rightarrow> day_alloc \<Rightarrow> int" where
  "bucket Learn r = learn r"
| "bucket Exo r = exo r"
| "bucket Review r = review r"
| "bucket Mock r = mock r"

fun add_to :: "kind \<Rightarrow> int \<Rightarrow> day_alloc \<Rightarrow> day_alloc" where
  "add_to Learn a r = r\<lparr>learn := learn r + a\<rparr>"
| "add_to Exo a r = r\<lparr>exo := exo r + a\<rparr>"
| "add_to Review a r = r\<lparr>review := review r + a\<rparr>"
| "add_to Mock a r = r\<lparr>mock := mock r + a\<rparr>"

definition day_sum :: "day_alloc \<Rightarrow> int" where
  "day_sum r = learn r + exo r + review r + mock r"

text \<open>
  Python list indexing: an index in \<open>[0, len)\<close> is itself, an index in \<open>[-len, 0)\<close>
  counts from the end, anything else raises \<open>IndexError\<close>.
\<close>

definition py_index :: "'a list \<Rightarrow> int \<Rightarrow> nat option" where
  "py_index xs i =
     (if 0 \<le> i \<and> i < int (length xs) then Some (nat i)
      else if - int (length xs) \<le> i \<and> i < 0 then Some (nat (int (length xs) + i))
      else None)"

definition blocked_set :: "Constraints \<Rightarrow> int set" where
  "blocked_set c = (case blocked_days c of None \<Rightarrow> {} | Some xs \<Rightarrow> set xs)"

section \<open>The helper \<open>push\<close>\<close>

text \<open>
  \<open>push(kind, minutes, day_order)\<close> walks \<open>day_order\<close>, skips blocked and full days, adds
  \<open>min(cap, remaining)\<close> to the bucket and stops as soon as nothing remains.  The table and
  the remaining minutes are threaded through; the closure variables \<open>blocked\<close> and \<open>maxd\<close>
  are parameters.
\<close>

fun push :: "int set \<Rightarrow> int \<Rightarrow> kind \<Rightarrow> int list \<Rightarrow> day_alloc list \<Rightarrow> int
               \<Rightarrow> error + (day_alloc list \<times> int)" where
  "push blocked maxd k [] pd remaining = Inr (pd, remaining)"
| "push blocked maxd k (d # ds) pd remaining =
     (if d \<in> blocked then push blocked maxd k ds pd remaining
      else case py_index pd d of
             None \<Rightarrow> Inl IndexError
           | Some j \<Rightarrow>
               (let cap = maxd - day_sum (pd ! j) in
                if cap \<le> 0 then push blocked maxd k ds pd remaining
                else let alloc = min cap remaining;
                         pd' = pd[j := add_to k alloc (pd ! j)];
                         remaining' = remaining - alloc
                     in if remaining' \<le> 0 then Inr (pd', remaining')
                        else push blocked maxd k ds pd' remaining'))"

text \<open>
  Every pass uses the same two lines: \<open>rem = push(kind, m, order)\<close> followed by
  \<open>if rem > 0: push(kind, rem, spill_order)\<close>, whose own return value is discarded.
\<close>

definition push_spill :: "int set \<Rightarrow> int \<Rightarrow> kind \<Rightarrow> int \<Rightarrow> int list \<Rightarrow> int list
                            \<Rightarrow> day_alloc list \<Rightarrow> error + day_alloc list" where
  "push_spill blocked maxd k minutes order spill_order pd =
     (case push blocked maxd k order pd minutes of
        Inl e \<Rightarrow> Inl e
      | Inr (pd1, rem) \<Rightarrow>
          if rem > 0 then
            (case push blocked maxd k spill_order pd1 rem of
               Inl e \<Rightarrow> Inl e
             | Inr (pd2, dropped) \<Rightarrow> Inr pd2)
          else Inr pd1)"

section \<open>Day orders\<close>

definition days_idx :: "int \<Rightarrow> int list" where
  "days_idx D = map int [0..<nat D]"

text \<open>
  \<open>int(D*0.6)\<close> is evaluated only for \<open>D > 1\<close>.  The double nearest to 0.6 lies below 0.6
  by less than \<open>2.3e-17\<close>, so for every day count a list of that length can exist for, the
  rounded product truncates to the integer part of \<open>3*D/5\<close>.
\<close>

definition int_06 :: "int \<Rightarrow> int" where
  "int_06 D = (3 * D) div 5"

definition last_40 :: "int \<Rightarrow> int set" where
  "last_40 D = (if D > 1 then set (drop (nat (int_06 D)) (days_idx D)) else {0})"

definition order_exo :: "int \<Rightarrow> int list" where
  "order_exo D = (if D \<ge> 3 then map int [nat (D div 3)..<nat D] else days_idx D)"

definition order_mock :: "int \<Rightarrow> int list" where
  "order_mock D =
     (let om = filter (\<lambda>d. d \<in> last_40 D) (days_idx D)
      in if om = [] then days_idx D else om)"

definition waves :: "int \<Rightarrow> int list list" where
  "waves D =
     (let w = (if D \<ge> 2 then [[min 1 (D - 1)]] else [])
            @ (if D \<ge> 4 then [[min 3 (D - 1)]] else [])
            @ (if D \<ge> 8 then [[min 7 (D - 1)]] else [])
      in if w = [] then [[0]] else w)"

text \<open>The loop of \<open>around\<close>: keep the first occurrence of each candidate.\<close>

fun keep_first :: "int list \<Rightarrow> int list \<Rightarrow> int list" where
  "keep_first [] seen = []"
| "keep_first (c # cs) seen =
     (if c \<in> set seen then keep_first cs seen else c # keep_first cs (c # seen))"

definition around :: "int \<Rightarrow> int \<Rightarrow> int list" where
  "around D day = keep_first [max 0 (day - 1), day, min (D - 1) (day + 1)] []"

section \<open>The review pass\<close>

text \<open>\<open>for i, w in enumerate(waves)\<close>, with \<open>i\<close> the running index.\<close>

fun review_waves :: "int set \<Rightarrow> int \<Rightarrow> int \<Rightarrow> int \<Rightarrow> int \<Rightarrow> nat \<Rightarrow> int list list
                       \<Rightarrow> day_alloc list \<Rightarrow> error + day_alloc list" where
  "review_waves blocked maxd D share spill i [] pd = Inr pd"
| "review_waves blocked maxd D share spill i (w # ws) pd =
     (let minutes = share + (if int i < spill then 1 else 0);
          target = hd w;
          order = around D target
      in case push_spill blocked maxd Review minutes order (days_idx D) pd of
           Inl e \<Rightarrow> Inl e
         | Inr pd' \<Rightarrow> review_waves blocked maxd D share spill (Suc i) ws pd')"

definition review_pass :: "int set \<Rightarrow> int \<Rightarrow> int \<Rightarrow> int \<Rightarrow> day_alloc list
                             \<Rightarrow> error + day_alloc list" where
  "review_pass blocked maxd D review_budget pd =
     (let ws = waves D;
          share = review_budget div int (length ws);
          spill = review_budget - share * int (length ws)
      in review_waves blocked maxd D share spill 0 ws pd)"

definition mock_pass :: "int set \<Rightarrow> int \<Rightarrow> int \<Rightarrow> int \<Rightarrow> day_alloc list
                           \<Rightarrow> error + day_alloc list" where
  "mock_pass blocked maxd D mock_budget pd =
     push_spill blocked maxd Mock mock_budget (order_mock D) (rev (days_idx D)) pd"

section \<open>The four placement passes\<close>

definition placement :: "int \<Rightarrow> int \<Rightarrow> int \<Rightarrow> int \<Rightarrow> Constraints \<Rightarrow> error + day_alloc list" where
  "placement learn_budget exo_budget review_budget mock_budget c =
     (let D = days_available c;
          blocked = blocked_set c;
          maxd = max_minutes_per_day c;
          pd0 = replicate (nat D) zero_day
      in case push_spill blocked maxd Learn learn_budget (days_idx D) (rev (days_idx D)) pd0 of
           Inl e \<Rightarrow> Inl e
         | Inr pd1 \<Rightarrow>
       (case push_spill blocked maxd Exo exo_budget (order_exo D) (rev (days_idx D)) pd1 of
           Inl e \<Rightarrow> Inl e
         | Inr pd2 \<Rightarrow>
       (case review_pass blocked maxd D review_budget pd2 of
           Inl e \<Rightarrow> Inl e
         | Inr pd3 \<Rightarrow> mock_pass blocked maxd D mock_budget pd3)))"

section \<open>The rebalancing pass\<close>

text \<open>
  The rebalancing loops index the table only with elements of \<open>range(D)\<close> while the table
  has \<open>D\<close> rows, so no index can be out of range there; \<open>pd ! nat d\<close> is \<open>per_day[d]\<close>.

  \<open>transfer\<close> is the loop \<open>for k in ["review", "exo", "learn", "mock"]\<close> with its
  \<open>break\<close>; \<open>donate\<close> is the guarded body of the donor scan for one donor \<open>s\<close>;
  \<open>pull\<close> is the donor scan \<open>for s in reversed(days_idx)\<close> with its \<open>break\<close>.
\<close>

fun transfer :: "nat \<Rightarrow> nat \<Rightarrow> kind list \<Rightarrow> day_alloc list \<Rightarrow> int \<Rightarrow> day_alloc list \<times> int" where
  "transfer s d [] pd need = (pd, need)"
| "transfer s d (k # ks) pd need =
     (let move = min (bucket k (pd ! s)) need;
          pd1 = pd[s := add_to k (- move) (pd ! s)];
          pd2 = pd1[d := add_to k move (pd1 ! d)];
          need' = need - move
      in if need' \<le> 0 then (pd2, need') else transfer s d ks pd2 need')"

definition donate :: "int \<Rightarrow> int \<Rightarrow> int \<Rightarrow> day_alloc list \<Rightarrow> int \<Rightarrow> day_alloc list \<times> int" where
  "donate mind s d pd need =
     (let src_sum = day_sum (pd ! nat s)
      in if src_sum - need \<ge> mind \<or> src_sum > mind + 60
         then transfer (nat s) (nat d) [Review, Exo, Learn, Mock] pd need
         else (pd, need))"

fun pull :: "int \<Rightarrow> int \<Rightarrow> int list \<Rightarrow> day_alloc list \<Rightarrow> int \<Rightarrow> day_alloc list \<times> int" where
  "pull mind d [] pd need = (pd, need)"
| "pull mind d (s # ss) pd need =
     (if s = d then pull mind d ss pd need
      else case donate mind s d pd need of
             (pd', need') \<Rightarrow>
               if need' \<le> 0 then (pd', need') else pull mind d ss pd' need')"

definition rebalance_day :: "int set \<Rightarrow> int \<Rightarrow> int \<Rightarrow> int \<Rightarrow> day_alloc list \<Rightarrow> day_alloc list" where
  "rebalance_day blocked mind D d pd =
     (if d \<in> blocked then pd
      else let s0 = day_sum (pd ! nat d) in
           if s0 = 0 then pd
           else if s0 < mind then fst (pull mind d (rev (days_idx D)) pd (mind - s0))
           else pd)"

definition rebalance :: "int set \<Rightarrow> int \<Rightarrow> int \<Rightarrow> day_alloc list \<Rightarrow> day_alloc list" where
  "rebalance blocked mind D pd = fold (rebalance_day blocked mind D) (days_idx D) pd"

section \<open>Building the result\<close>

text \<open>
  \<open>timedelta(days=d)\<close> refuses a magnitude above 999999999, and adding it to a date raises
  \<open>OverflowError\<close> when the result leaves the range from \<open>date.min\<close> to \<open>date.max\<close>.
\<close>

definition date_max_ordinal :: int where
  "date_max_ordinal = 3652059"

definition date_overflows :: "int option \<Rightarrow> int \<Rightarrow> bool" where
  "date_overflows start_date d =
     (case start_date of
        None \<Rightarrow> False
      | Some s \<Rightarrow> \<bar>d\<bar> > 999999999 \<or> s + d < 1 \<or> s + d > date_max_ordinal)"

text \<open>The row \<open>PlanItem(day_index=d, date=date_str, ...)\<close> once the date is computed.\<close>

definition plan_item :: "int option \<Rightarrow> day_alloc list \<Rightarrow> int \<Rightarrow> PlanItem" where
  "plan_item start_date pd d =
     \<lparr>day_index = d,
      date = map_option (\<lambda>s. s + d) start_date,
      learn_min = learn (pd ! nat d),
      exercises_min = exo (pd ! nat d),
      review_min = review (pd ! nat d),
      mock_min = mock (pd ! nat d)\<rparr>"

text \<open>The body of the final loop for one day, and the loop \<open>for d in days_idx\<close> itself.\<close>

definition make_item :: "int option \<Rightarrow> day_alloc list \<Rightarrow> int \<Rightarrow> error + PlanItem" where
  "make_item start_date pd d =
     (if date_overflows start_date d then Inl OverflowError
      else Inr (plan_item start_date pd d))"

fun build_items :: "int option \<Rightarrow> day_alloc list \<Rightarrow> int list \<Rightarrow> error + PlanItem list" where
  "build_items start_date pd [] = Inr []"
| "build_items start_date pd (d # ds) =
     (case make_item start_date pd d of
        Inl e \<Rightarrow> Inl e
      | Inr it \<Rightarrow>
          (case build_items start_date pd ds of
             Inl e \<Rightarrow> Inl e
           | Inr items \<Rightarrow> Inr (it # items)))"

definition distribute_minutes_over_days ::
    "int \<Rightarrow> int \<Rightarrow> int \<Rightarrow> int \<Rightarrow> Constraints \<Rightarrow> int option \<Rightarrow> error + PlanItem list" where
  "distribute_minutes_over_days learn_budget exo_budget review_budget mock_budget c start_date =
     (case placement learn_budget exo_budget review_budget mock_budget c of
        Inl e \<Rightarrow> Inl e
      | Inr pd \<Rightarrow>
          build_items start_date
            (rebalance (blocked_set c) (min_minutes_per_day c) (days_available c) pd)
            (days_idx (days_available c)))"

text \<open>
  \<open>build_study_plan\<close>.  Its estimator calls and the gap adjustment are floating-point
  arithmetic on finite inputs; what they contribute to the control flow is the check of
  \<open>estimate_initial_learning_minutes\<close>, which runs first and raises \<open>ValueError\<close> when a
  content block has a \<open>unit_type\<close> that is not a key of \<open>UNIT_BASE_MIN\<close>.  So the contents are
  represented by the list of their unit types, and \<open>TAI\<close>, \<open>TEXO\<close>, \<open>TR\<close>, \<open>TEB\<close> are the four
  integers passed on to the engine when no estimator raises.  The float-valued
  \<open>params_used\<close> map is left out of the result.
\<close>

definition UNIT_BASE_MIN_keys :: "string list" where
  "UNIT_BASE_MIN_keys = [''page'', ''slide'', ''video_min'', ''exo'']"

definition build_study_plan ::
    "string list \<Rightarrow> int \<Rightarrow> int \<Rightarrow> int \<Rightarrow> int \<Rightarrow> Constraints \<Rightarrow> int option
       \<Rightarrow> error + PlanResult" where
  "build_study_plan unit_types TAI TEXO TR TEB c start_date =
     (if set unit_types \<subseteq> set UNIT_BASE_MIN_keys then
        (case distribute_minutes_over_days TAI TEXO TR TEB c start_date of
           Inl e \<Rightarrow> Inl e
         | Inr schedule \<Rightarrow>
             Inr \<lparr>total_minutes = TAI + TEXO + TR + TEB,
                  per_day = schedule,
                  breakdown = [(''learn'', TAI), (''exercises'', TEXO), (''review'', TR), (''mock'', TEB)]\<rparr>)
      else Inl ValueError)"

text \<open>Quantities the properties are stated with.\<close>

definition item_total :: "PlanItem \<Rightarrow> int" where
  "item_total it = learn_min it + exercises_min it + review_min it + mock_min it"

definition schedule_total :: "PlanItem list \<Rightarrow> int" where
  "schedule_total items = sum_list (map item_total items)"

definition grand_total :: "day_alloc list \<Rightarrow> int" where
  "grand_total pd = sum_list (map day_sum pd)"

definition capacity :: "Constraints \<Rightarrow> int" where
  "capacity c =
     sum_list (map (\<lambda>d. if d \<in> blocked_set c then 0 else max_minutes_per_day c)
                   (days_idx (days_available c)))"

text \<open>
  The start date is a date, and so is the date of the last day: then no date of the
  schedule overflows.
\<close>

definition start_date_fits :: "Constraints \<Rightarrow> int option \<Rightarrow> bool" where
  "start_date_fits c start_date \<longleftrightarrow>
     (case start_date of
        None \<Rightarrow> True
      | Some s \<Rightarrow> 1 \<le> s \<and> s + (days_available c - 1) \<le> date_max_ordinal)"

definition valid_input :: "int \<Rightarrow> int \<Rightarrow> int \<Rightarrow> int \<Rightarrow> Constraints \<Rightarrow> bool" where
  "valid_input learn_budget exo_budget review_budget mock_budget c \<longleftrightarrow>
     days_available c \<ge> 1 \<and> 0 \<le> learn_budget \<and> 0 \<le> exo_budget \<and> 0 \<le> review_budget
     \<and> 0 \<le> mock_budget \<and> blocked_set c \<subseteq> {0..<days_available c}"

section \<open>Auxiliary notions for the proofs\<close>

text \<open>Bucket-wise comparison of two rows, and how a placement pass may change the table.\<close>

definition le_day :: "day_alloc \<Rightarrow> day_alloc \<Rightarrow> bool" where
  "le_day r r' \<longleftrightarrow>
     learn r \<le> learn r' \<and> exo r \<le> exo r' \<and> review r \<le> review r' \<and> mock r \<le> mock r'"

definition grows :: "int \<Rightarrow> int set \<Rightarrow> day_alloc list \<Rightarrow> day_alloc list \<Rightarrow> bool" where
  "grows maxd blocked pd pd' \<longleftrightarrow>
     length pd' = length pd \<and>
     (\<forall>i<length pd. (int i \<in> blocked \<longrightarrow> pd' ! i = pd ! i) \<and> le_day (pd ! i) (pd' ! i)
                     \<and> day_sum (pd' ! i) \<le> max maxd (day_sum (pd ! i)))"

text \<open>The scenario of the specification: five days, cap 240, floor 60, nothing blocked.\<close>

definition scenario_constraints :: Constraints where
  "scenario_constraints =
     \<lparr>days_available = 5, max_minutes_per_day = 240, min_minutes_per_day = 60,
      blocked_days = None\<rparr>"

definition scenario_schedule :: "PlanItem list" where
  "scenario_schedule =
     [\<lparr>day_index = 0, date = None, learn_min = 240, exercises_min = 0, review_min = 0, mock_min = 0\<rparr>,
      \<lparr>day_index = 1, date = None, learn_min = 240, exercises_min = 0, review_min = 0, mock_min = 0\<rparr>,
      \<lparr>day_index = 2, date = None, learn_min = 120, exercises_min = 120, review_min = 0, mock_min = 0\<rparr>,
      \<lparr>day_index = 3, date = None, learn_min = 0, exercises_min = 180, review_min = 60, mock_min = 0\<rparr>,
      \<lparr>day_index = 4, date = None, learn_min = 0, exercises_min = 0, review_min = 60, mock_min = 0\<rparr>]"

text \<open>Every non-blocked day is filled up to the cap.\<close>

definition all_full :: "int \<Rightarrow> int set \<Rightarrow> int \<Rightarrow> day_alloc list \<Rightarrow> bool" where
  "all_full maxd blocked D pd \<longleftrightarrow>
     (\<forall>d\<in>set (days_idx D). d \<notin> blocked \<longrightarrow> maxd \<le> day_sum (pd ! nat d))"

text \<open>
  The effect of placing \<open>m\<close> minutes: the table only grows, by at most \<open>m\<close>, and by less
  than \<open>m\<close> only when every non-blocked day is full.
\<close>

definition placed :: "int \<Rightarrow> int set \<Rightarrow> int \<Rightarrow> day_alloc list \<Rightarrow> int \<Rightarrow> day_alloc list \<Rightarrow> bool" where
  "placed maxd blocked D pd m pd' \<longleftrightarrow>
     grows maxd blocked pd pd' \<and> grand_total pd' \<le> grand_total pd + m
     \<and> (grand_total pd' = grand_total pd + m \<or> all_full maxd blocked D pd')"

text \<open>The minutes of wave \<open>i\<close>: \<open>share + (1 if i < spill else 0)\<close>.\<close>

definition wave_minutes :: "int \<Rightarrow> int \<Rightarrow> nat \<Rightarrow> int" where
  "wave_minutes share spill i = share + (if int i < spill then 1 else 0)"

text \<open>No bucket of the table is negative.\<close>

definition nonneg_rows :: "day_alloc list \<Rightarrow> bool" where
  "nonneg_rows pd \<longleftrightarrow> (\<forall>i<length pd. le_day zero_day (pd ! i))"

text \<open>
  The effect of the donor scan for the needy day \<open>d\<close>: other rows only shrink, row \<open>d\<close>
  only grows, buckets stay non-negative, and what row \<open>d\<close> gained is what the need lost.
\<close>

definition pulled :: "nat \<Rightarrow> day_alloc list \<Rightarrow> int \<Rightarrow> day_alloc list \<Rightarrow> int \<Rightarrow> bool" where
  "pulled d pd need pd' need' \<longleftrightarrow>
     length pd' = length pd \<and> nonneg_rows pd' \<and> 0 \<le> need' \<and> need' \<le> need
     \<and> (\<forall>i<length pd. i \<noteq> d \<longrightarrow> le_day (pd' ! i) (pd ! i))
     \<and> le_day (pd ! d) (pd' ! d)
     \<and> day_sum (pd' ! d) + need' = day_sum (pd ! d) + need"

text \<open>Non-negative buckets, and blocked rows that are still empty.\<close>

definition table_ok :: "int set \<Rightarrow> day_alloc list \<Rightarrow> bool" where
  "table_ok blocked pd \<longleftrightarrow>
     nonneg_rows pd \<and> (\<forall>i<length pd. int i \<in> blocked \<longrightarrow> pd ! i = zero_day)"

text \<open>No row exceeds the cap.\<close>

definition capped :: "int \<Rightarrow> day_alloc list \<Rightarrow> bool" where
  "capped maxd pd \<longleftrightarrow> (\<forall>i<length pd. day_sum (pd ! i) \<le> maxd)"

text \<open>Four days with day 2 blocked, as in the specification's blocked-day scenario.\<close>

definition blocked_scenario :: Constraints where
  "blocked_scenario =
     \<lparr>days_available = 4, max_minutes_per_day = 240, min_minutes_per_day = 60,
      blocked_days = Some [2]\<rparr>"

text \<open>A single day of 240 minutes.\<close>

definition single_day :: Constraints where
  "single_day =
     \<lparr>days_available = 1, max_minutes_per_day = 240, min_minutes_per_day = 60,
      blocked_days = None\<rparr>"

text \<open>A two-day table in which day 1 is below a floor of 60 and day 0 can donate.\<close>

definition uneven_table :: "day_alloc list" where
  "uneven_table =
     [\<lparr>learn = 200, exo = 0, review = 40, mock = 0\<rparr>,
      \<lparr>learn = 10, exo = 0, review = 0, mock = 0\<rparr>]"

text \<open>The schedule of 300 learning minutes on a single day of 240.\<close>

definition single_day_schedule :: "PlanItem list" where
  "single_day_schedule =
     [\<lparr>day_index = 0, date = None, learn_min = 240, exercises_min = 0, review_min = 0, mock_min = 0\<rparr>]"



text \<open>
  The guard of the donor scan, read on the table as it is when a needy day is processed:
  day \<open>s\<close> may donate \<open>need\<close> minutes.
\<close>

definition eligible_donor :: "int \<Rightarrow> int \<Rightarrow> day_alloc list \<Rightarrow> int \<Rightarrow> bool" where
  "eligible_donor mind need pd s \<longleftrightarrow>
     day_sum (pd ! nat s) - need \<ge> mind \<or> day_sum (pd ! nat s) > mind + 60"

text \<open>Three days with cap 80 and floor 60: the capacity 240 covers three floors.\<close>

definition three_days :: Constraints where
  "three_days =
     \<lparr>days_available = 3, max_minutes_per_day = 80, min_minutes_per_day = 60,
      blocked_days = None\<rparr>"

definition three_days_schedule :: "PlanItem list" where
  "three_days_schedule =
     [\<lparr>day_index = 0, date = None, learn_min = 80, exercises_min = 0, review_min = 0, mock_min = 0\<rparr>,
      \<lparr>day_index = 1, date = None, learn_min = 80, exercises_min = 0, review_min = 0, mock_min = 0\<rparr>,
      \<lparr>day_index = 2, date = None, learn_min = 0, exercises_min = 0, review_min = 0, mock_min = 20\<rparr>]"



text \<open>Two days with the default cap and floor.\<close>

definition two_days :: Constraints where
  "two_days =
     \<lparr>days_available = 2, max_minutes_per_day = 240, min_minutes_per_day = 60,
      blocked_days = None\<rparr>"







text \<open>
  The table as the rebalancing loop finds it when it reaches day \<open>d\<close>: the days before
  \<open>d\<close> have been processed.
\<close>

definition table_before :: "int set \<Rightarrow> int \<Rightarrow> int \<Rightarrow> int \<Rightarrow> day_alloc list \<Rightarrow> day_alloc list" where
  "table_before blocked mind D d pd = fold (rebalance_day blocked mind D) (days_idx d) pd"

text \<open>Three days of which the first and the last are below a floor of 60.\<close>

definition three_day_table :: "day_alloc list" where
  "three_day_table =
     [\<lparr>learn = 10, exo = 0, review = 0, mock = 0\<rparr>,
      \<lparr>learn = 200, exo = 0, review = 0, mock = 0\<rparr>,
      \<lparr>learn = 30, exo = 0, review = 0, mock = 0\<rparr>]"

section \<open>Rows, tables and \<open>push\<close>\<close>

lemma day_sum_add_to [simp]: "day_sum (add_to k a r) = day_sum r + a"
  by (cases k) (simp_all add: day_sum_def)

lemma le_day_refl [simp]: "le_day r r"
  by (simp add: le_day_def)

lemma le_day_trans: "le_day a b \<Longrightarrow> le_day b c \<Longrightarrow> le_day a c"
  by (auto simp: le_day_def)

lemma le_day_sum: "le_day a b \<Longrightarrow> day_sum a \<le> day_sum b"
  by (auto simp: le_day_def day_sum_def)

lemma le_day_add_to: "0 \<le> a \<Longrightarrow> le_day r (add_to k a r)"
  by (cases k) (simp_all add: le_day_def)

lemma grows_refl [simp]: "grows maxd B pd pd"
  by (simp add: grows_def)

lemma grows_trans: "grows maxd B a b \<Longrightarrow> grows maxd B b c \<Longrightarrow> grows maxd B a c"
  unfolding grows_def
  apply (intro conjI allI impI)
     apply simp
    apply simp
   apply (metis le_day_trans)
  apply (smt (verit) max.absorb2 max.cobounded1 max.coboundedI2 max_def)
  done

lemma grand_total_update:
  "i < length pd \<Longrightarrow> grand_total (pd[i := r]) = grand_total pd - day_sum (pd ! i) + day_sum r"
proof (induction pd arbitrary: i)
  case Nil then show ?case by simp
next
  case (Cons a pd)
  then show ?case by (cases i) (simp_all add: grand_total_def)
qed

lemma grows_step:
  assumes "j < length pd" "0 \<le> a" "day_sum (pd ! j) + a \<le> maxd" "int j \<notin> B"
  shows "grows maxd B pd (pd[j := add_to k a (pd ! j)])"
  using assms unfolding grows_def
  by (auto simp: nth_list_update le_day_add_to)

lemma py_index_in_range: "0 \<le> d \<Longrightarrow> d < int (length pd) \<Longrightarrow> py_index pd d = Some (nat d)"
  by (simp add: py_index_def)

lemma push_ok:
  assumes "\<forall>d\<in>set order. 0 \<le> d \<and> d < int (length pd)" "0 \<le> rem"
  shows "\<exists>pd' r. push B maxd k order pd rem = Inr (pd', r) \<and> grows maxd B pd pd' \<and> 0 \<le> r
           \<and> grand_total pd' + r = grand_total pd + rem
           \<and> (0 < r \<longrightarrow> (\<forall>d\<in>set order. d \<notin> B \<longrightarrow> maxd \<le> day_sum (pd' ! nat d)))"
  using assms
proof (induction order arbitrary: pd rem)
  case Nil
  then show ?case by simp
next
  case (Cons d ds)
  have rng: "0 \<le> d" "d < int (length pd)" and rest: "\<forall>x\<in>set ds. 0 \<le> x \<and> x < int (length pd)"
    using Cons.prems(1) by auto
  have jl: "nat d < length pd" using rng by linarith
  show ?case
  proof (cases "d \<in> B")
    case True
    from Cons.IH[OF rest Cons.prems(2)] obtain pd' r where
      "push B maxd k ds pd rem = Inr (pd', r)" "grows maxd B pd pd'" "0 \<le> r"
      "grand_total pd' + r = grand_total pd + rem"
      "0 < r \<longrightarrow> (\<forall>d\<in>set ds. d \<notin> B \<longrightarrow> maxd \<le> day_sum (pd' ! nat d))" by blast
    then show ?thesis using True by auto
  next
    case nb: False
    show ?thesis
    proof (cases "maxd - day_sum (pd ! nat d) \<le> 0")
      case True
      from Cons.IH[OF rest Cons.prems(2)] obtain pd' r where
        h: "push B maxd k ds pd rem = Inr (pd', r)" "grows maxd B pd pd'" "0 \<le> r"
        "grand_total pd' + r = grand_total pd + rem"
        "0 < r \<longrightarrow> (\<forall>d\<in>set ds. d \<notin> B \<longrightarrow> maxd \<le> day_sum (pd' ! nat d))" by blast
      have "day_sum (pd ! nat d) \<le> day_sum (pd' ! nat d)"
        using h(2) jl le_day_sum unfolding grows_def by blast
      then have "maxd \<le> day_sum (pd' ! nat d)" using True by linarith
      then show ?thesis using h nb True rng by (auto simp: py_index_in_range)
    next
      case cap: False
      define alloc where "alloc = min (maxd - day_sum (pd ! nat d)) rem"
      define pd1 where "pd1 = pd[nat d := add_to k alloc (pd ! nat d)]"
      have a0: "0 \<le> alloc" using cap Cons.prems(2) by (simp add: alloc_def)
      have g1: "grows maxd B pd pd1" unfolding pd1_def
        by (rule grows_step) (use jl a0 nb rng in \<open>auto simp: alloc_def\<close>)
      have t1: "grand_total pd1 + (rem - alloc) = grand_total pd + rem"
        unfolding pd1_def using jl by (simp add: grand_total_update)
      have l1: "length pd1 = length pd" by (simp add: pd1_def)
      show ?thesis
      proof (cases "rem - alloc \<le> 0")
        case True
        then have "rem - alloc = 0" using alloc_def by linarith
        then have "push B maxd k (d # ds) pd rem = Inr (pd1, 0)"
          using nb cap rng by (simp add: py_index_in_range Let_def alloc_def pd1_def)
        then show ?thesis using g1 t1 \<open>rem - alloc = 0\<close> by auto
      next
        case more: False
        then have ac: "alloc = maxd - day_sum (pd ! nat d)" unfolding alloc_def by linarith
        have full: "day_sum (pd1 ! nat d) = maxd" using jl by (simp add: pd1_def ac)
        have rest1: "\<forall>x\<in>set ds. 0 \<le> x \<and> x < int (length pd1)" using rest l1 by simp
        have r1: "0 \<le> rem - alloc" using more by linarith
        from Cons.IH[OF rest1 r1] obtain pd' r where
          h: "push B maxd k ds pd1 (rem - alloc) = Inr (pd', r)" "grows maxd B pd1 pd'" "0 \<le> r"
          "grand_total pd' + r = grand_total pd1 + (rem - alloc)"
          "0 < r \<longrightarrow> (\<forall>d\<in>set ds. d \<notin> B \<longrightarrow> maxd \<le> day_sum (pd' ! nat d))" by blast
        have "day_sum (pd1 ! nat d) \<le> day_sum (pd' ! nat d)"
          using h(2) jl l1 le_day_sum unfolding grows_def by metis
        then have fd: "maxd \<le> day_sum (pd' ! nat d)" using full by linarith
        have "push B maxd k (d # ds) pd rem = Inr (pd', r)"
          using nb cap rng more h(1) by (simp add: py_index_in_range Let_def alloc_def pd1_def)
        then show ?thesis using h fd t1 grows_trans[OF g1 h(2)] by auto
      qed
    qed
  qed
qed

lemma days_idx_iff: "d \<in> set (days_idx D) \<longleftrightarrow> 0 \<le> d \<and> d < D"
  unfolding days_idx_def by (auto simp: image_iff intro: bexI[of _ "nat d"])

lemma order_exo_sub: "d \<in> set (order_exo D) \<Longrightarrow> 0 \<le> d \<and> d < D"
  unfolding order_exo_def by (auto simp: days_idx_iff split: if_splits)

lemma order_mock_sub: "d \<in> set (order_mock D) \<Longrightarrow> 0 \<le> d \<and> d < D"
  unfolding order_mock_def Let_def by (auto simp: days_idx_iff split: if_splits)

lemma keep_first_sub: "set (keep_first cs seen) \<subseteq> set cs"
  by (induction cs arbitrary: seen) auto

lemma around_sub: "1 \<le> D \<Longrightarrow> 0 \<le> a \<Longrightarrow> a \<le> D - 1 \<Longrightarrow> d \<in> set (around D a) \<Longrightarrow> 0 \<le> d \<and> d < D"
  using keep_first_sub[of "[max 0 (a - 1), a, min (D - 1) (a + 1)]" "[]"]
  unfolding around_def by auto

lemma waves_range: "1 \<le> D \<Longrightarrow> w \<in> set (waves D) \<Longrightarrow> 0 \<le> hd w \<and> hd w \<le> D - 1"
  unfolding waves_def Let_def by (auto split: if_splits)

lemma all_full_grows:
  assumes "all_full maxd B D pd" "grows maxd B pd pd'" "length pd = nat D"
  shows "all_full maxd B D pd'"
  unfolding all_full_def
proof (intro ballI impI)
  fix d assume d: "d \<in> set (days_idx D)" "d \<notin> B"
  then have "nat d < length pd" using assms(3) by (auto simp: days_idx_iff)
  then have "day_sum (pd ! nat d) \<le> day_sum (pd' ! nat d)"
    using assms(2) le_day_sum unfolding grows_def by blast
  moreover have "maxd \<le> day_sum (pd ! nat d)" using assms(1) d unfolding all_full_def by blast
  ultimately show "maxd \<le> day_sum (pd' ! nat d)" by linarith
qed

lemma grows_length: "grows maxd B pd pd' \<Longrightarrow> length pd' = length pd"
  by (simp add: grows_def)

lemma push_spill_ok:
  assumes o1: "\<forall>d\<in>set order. 0 \<le> d \<and> d < D"
      and o2: "set spill_order = set (days_idx D)"
      and len: "length pd = nat D" and m: "0 \<le> m"
  shows "\<exists>pd'. push_spill B maxd k m order spill_order pd = Inr pd' \<and> grows maxd B pd pd'
           \<and> grand_total pd' \<le> grand_total pd + m
           \<and> (grand_total pd' = grand_total pd + m \<or> all_full maxd B D pd')"
proof -
  have v1: "\<forall>d\<in>set order. 0 \<le> d \<and> d < int (length pd)" using o1 len by auto
  from push_ok[OF v1 m, of B maxd k] obtain pd1 r1 where
    h1: "push B maxd k order pd m = Inr (pd1, r1)" "grows maxd B pd pd1" "0 \<le> r1"
        "grand_total pd1 + r1 = grand_total pd + m" by blast
  show ?thesis
  proof (cases "0 < r1")
    case False
    then have "r1 = 0" using h1(3) by linarith
    then show ?thesis using h1 False by (simp add: push_spill_def)
  next
    case True
    have l1: "length pd1 = nat D" using h1(2) len by (simp add: grows_def)
    have v2: "\<forall>d\<in>set spill_order. 0 \<le> d \<and> d < int (length pd1)"
      using o2 l1 by (auto simp: days_idx_iff)
    from push_ok[OF v2 h1(3), of B maxd k] obtain pd2 r2 where
      h2: "push B maxd k spill_order pd1 r1 = Inr (pd2, r2)" "grows maxd B pd1 pd2" "0 \<le> r2"
          "grand_total pd2 + r2 = grand_total pd1 + r1"
          "0 < r2 \<longrightarrow> (\<forall>d\<in>set spill_order. d \<notin> B \<longrightarrow> maxd \<le> day_sum (pd2 ! nat d))" by blast
    have res: "push_spill B maxd k m order spill_order pd = Inr pd2"
      using h1(1) h2(1) True by (simp add: push_spill_def)
    have g: "grows maxd B pd pd2" using grows_trans[OF h1(2) h2(2)] .
    have "grand_total pd2 = grand_total pd + m \<or> all_full maxd B D pd2"
    proof (cases "0 < r2")
      case True
      then show ?thesis using h2(5) o2 unfolding all_full_def by blast
    next
      case False
      then have "r2 = 0" using h2(3) by linarith
      then show ?thesis using h2(4) h1(4) by simp
    qed
    then show ?thesis using res g h2(3,4) h1(4) by auto
  qed
qed

lemma push_spill_placed:
  assumes "\<forall>d\<in>set order. 0 \<le> d \<and> d < D" "set spill_order = set (days_idx D)"
          "length pd = nat D" "0 \<le> m"
  shows "\<exists>pd'. push_spill B maxd k m order spill_order pd = Inr pd' \<and> placed maxd B D pd m pd'"
  using push_spill_ok[OF assms] unfolding placed_def by blast

lemma placed_length: "placed maxd B D pd m pd' \<Longrightarrow> length pd' = length pd"
  by (simp add: placed_def grows_def)

lemma placed_refl: "placed maxd B D pd 0 pd"
  by (simp add: placed_def)

lemma placed_trans:
  assumes "placed maxd B D pd m1 pd1" "placed maxd B D pd1 m2 pd2" "length pd = nat D"
  shows "placed maxd B D pd (m1 + m2) pd2"
proof -
  have l1: "length pd1 = nat D" using assms(1,3) placed_length by metis
  have g: "grows maxd B pd pd2" using assms(1,2) grows_trans unfolding placed_def by blast
  have le: "grand_total pd2 \<le> grand_total pd + (m1 + m2)"
    using assms(1,2) unfolding placed_def by linarith
  have "grand_total pd2 = grand_total pd + (m1 + m2) \<or> all_full maxd B D pd2"
  proof (cases "all_full maxd B D pd1")
    case True
    then show ?thesis using all_full_grows[OF True _ l1] assms(2) unfolding placed_def by blast
  next
    case False
    then show ?thesis using assms(1,2) unfolding placed_def by auto
  qed
  then show ?thesis using g le unfolding placed_def by blast
qed

lemma review_waves_ok:
  assumes "\<forall>w\<in>set ws. 0 \<le> hd w \<and> hd w \<le> D - 1" "1 \<le> D" "length pd = nat D"
          "0 \<le> share"
  shows "\<exists>pd'. review_waves B maxd D share spill i ws pd = Inr pd'
           \<and> placed maxd B D pd (sum_list (map (wave_minutes share spill) [i..<i + length ws])) pd'"
  using assms
proof (induction ws arbitrary: i pd)
  case Nil
  then show ?case by (simp add: placed_refl)
next
  case (Cons w ws)
  have hw: "0 \<le> hd w" "hd w \<le> D - 1" using Cons.prems(1) by auto
  have ord: "\<forall>d\<in>set (around D (hd w)). 0 \<le> d \<and> d < D"
    using around_sub[OF Cons.prems(2) hw] by blast
  have m0: "0 \<le> wave_minutes share spill i" using Cons.prems(4) by (simp add: wave_minutes_def)
  from push_spill_placed[OF ord refl Cons.prems(3) m0, of B maxd Review] obtain pd1 where
    h1: "push_spill B maxd Review (wave_minutes share spill i) (around D (hd w)) (days_idx D) pd = Inr pd1"
        "placed maxd B D pd (wave_minutes share spill i) pd1" by blast
  have l1: "length pd1 = nat D" using h1(2) Cons.prems(3) placed_length by metis
  have rest: "\<forall>w\<in>set ws. 0 \<le> hd w \<and> hd w \<le> D - 1" using Cons.prems(1) by simp
  from Cons.IH[OF rest Cons.prems(2) l1 Cons.prems(4), of "Suc i"] obtain pd2 where
    h2: "review_waves B maxd D share spill (Suc i) ws pd1 = Inr pd2"
        "placed maxd B D pd1 (sum_list (map (wave_minutes share spill) [Suc i..<Suc i + length ws])) pd2"
    by blast
  have "i < i + length (w # ws)" by simp
  then have "[i..<i + length (w # ws)] = i # [Suc i..<i + length (w # ws)]"
    by (rule upt_conv_Cons)
  moreover have "i + length (w # ws) = Suc i + length ws" by simp
  ultimately have up: "[i..<i + length (w # ws)] = i # [Suc i..<Suc i + length ws]"
    by (simp only:)
  have "review_waves B maxd D share spill i (w # ws) pd = Inr pd2"
    using h1(1) h2(1) by (simp add: wave_minutes_def)
  moreover have "placed maxd B D pd (sum_list (map (wave_minutes share spill) [i..<i + length (w # ws)])) pd2"
    unfolding up using placed_trans[OF h1(2) h2(2) Cons.prems(3)] by simp
  ultimately show ?case by blast
qed

lemma spill_count_min:
  "0 \<le> spill \<Longrightarrow> sum_list (map (\<lambda>j. if int j < spill then 1 else (0::int)) [0..<n]) = min spill (int n)"
  by (induction n) auto

lemma spill_count:
  "0 \<le> spill \<Longrightarrow> spill \<le> int n \<Longrightarrow> sum_list (map (\<lambda>j. if int j < spill then 1 else (0::int)) [0..<n]) = spill"
  by (simp add: spill_count_min)

lemma wave_minutes_sum:
  assumes "0 < n" "0 \<le> r"
  shows "sum_list (map (wave_minutes (r div int n) (r - (r div int n) * int n)) [0..<n]) = r"
proof -
  let ?sh = "r div int n" and ?sp = "r - (r div int n) * int n"
  have sp: "?sp = r mod int n" by (simp add: minus_div_mult_eq_mod)
  have b: "0 \<le> ?sp" "?sp \<le> int n" unfolding sp using assms(1) by (simp_all add: less_imp_le)
  have "sum_list (map (wave_minutes ?sh ?sp) [0..<n])
        = sum_list (map (\<lambda>j. ?sh) [0..<n]) + sum_list (map (\<lambda>j. if int j < ?sp then 1 else (0::int)) [0..<n])"
    unfolding wave_minutes_def by (simp add: sum_list_addf)
  also have "\<dots> = ?sh * int n + ?sp" using spill_count[OF b] by (simp add: sum_list_triv)
  also have "\<dots> = r" by simp
  finally show ?thesis .
qed

lemma waves_nonempty: "waves D \<noteq> []"
  unfolding waves_def Let_def by auto

lemma review_pass_ok:
  assumes "1 \<le> D" "length pd = nat D" "0 \<le> r"
  shows "\<exists>pd'. review_pass B maxd D r pd = Inr pd' \<and> placed maxd B D pd r pd'"
proof -
  let ?n = "length (waves D)"
  have n: "0 < ?n" using waves_nonempty by simp
  have sh: "0 \<le> r div int ?n" using assms(3) n by (simp add: pos_imp_zdiv_nonneg_iff)
  have rng: "\<forall>w\<in>set (waves D). 0 \<le> hd w \<and> hd w \<le> D - 1" using waves_range[OF assms(1)] by blast
  from review_waves_ok[OF rng assms(1,2) sh, of B maxd "r - (r div int ?n) * int ?n" 0]
  show ?thesis unfolding review_pass_def Let_def using wave_minutes_sum[OF n assms(3)] by simp
qed

lemma placement_ok:
  assumes "valid_input lb eb rb mb c"
  shows "\<exists>pd. placement lb eb rb mb c = Inr pd
           \<and> placed (max_minutes_per_day c) (blocked_set c) (days_available c)
                    (replicate (nat (days_available c)) zero_day) (lb + eb + rb + mb) pd"
proof -
  let ?D = "days_available c" and ?B = "blocked_set c" and ?M = "max_minutes_per_day c"
  let ?pd0 = "replicate (nat ?D) zero_day"
  have D: "1 \<le> ?D" and b: "0 \<le> lb" "0 \<le> eb" "0 \<le> rb" "0 \<le> mb"
    using assms by (auto simp: valid_input_def)
  have l0: "length ?pd0 = nat ?D" by simp
  have od: "\<forall>d\<in>set (days_idx ?D). 0 \<le> d \<and> d < ?D" by (simp add: days_idx_iff)
  have sr: "set (rev (days_idx ?D)) = set (days_idx ?D)" by simp
  from push_spill_placed[OF od sr l0 b(1), of ?B ?M Learn] obtain pd1 where
    h1: "push_spill ?B ?M Learn lb (days_idx ?D) (rev (days_idx ?D)) ?pd0 = Inr pd1"
        "placed ?M ?B ?D ?pd0 lb pd1" by blast
  have l1: "length pd1 = nat ?D" using placed_length[OF h1(2)] by simp
  have oe: "\<forall>d\<in>set (order_exo ?D). 0 \<le> d \<and> d < ?D" using order_exo_sub by blast
  from push_spill_placed[OF oe sr l1 b(2), of ?B ?M Exo] obtain pd2 where
    h2: "push_spill ?B ?M Exo eb (order_exo ?D) (rev (days_idx ?D)) pd1 = Inr pd2"
        "placed ?M ?B ?D pd1 eb pd2" by blast
  have l2: "length pd2 = nat ?D" using placed_length[OF h2(2)] l1 by simp
  from review_pass_ok[OF D l2 b(3), of ?B ?M] obtain pd3 where
    h3: "review_pass ?B ?M ?D rb pd2 = Inr pd3" "placed ?M ?B ?D pd2 rb pd3" by blast
  have l3: "length pd3 = nat ?D" using placed_length[OF h3(2)] l2 by simp
  have om: "\<forall>d\<in>set (order_mock ?D). 0 \<le> d \<and> d < ?D" using order_mock_sub by blast
  from push_spill_placed[OF om sr l3 b(4), of ?B ?M Mock] obtain pd4 where
    h4: "mock_pass ?B ?M ?D mb pd3 = Inr pd4" "placed ?M ?B ?D pd3 mb pd4"
    unfolding mock_pass_def by blast
  have p12: "placed ?M ?B ?D ?pd0 (lb + eb) pd2" using placed_trans[OF h1(2) h2(2) l0] .
  have p123: "placed ?M ?B ?D ?pd0 (lb + eb + rb) pd3" using placed_trans[OF p12 h3(2) l0] .
  have p: "placed ?M ?B ?D ?pd0 (lb + eb + rb + mb) pd4" using placed_trans[OF p123 h4(2) l0] .
  have "placement lb eb rb mb c = Inr pd4"
    unfolding placement_def Let_def using h1(1) h2(1) h3(1) h4(1) by simp
  then show ?thesis using p by blast
qed

lemma bucket_add_to: "bucket k' (add_to k a r) = (if k' = k then bucket k' r + a else bucket k' r)"
  by (cases k; cases k') simp_all

lemma le_day_bucket: "le_day r r' \<longleftrightarrow> (\<forall>k. bucket k r \<le> bucket k r')"
proof
  assume "le_day r r'"
  then show "\<forall>k. bucket k r \<le> bucket k r'"
    unfolding le_day_def by (auto intro: kind.induct)
next
  assume h: "\<forall>k. bucket k r \<le> bucket k r'"
  show "le_day r r'"
    unfolding le_day_def using h[rule_format, of Learn] h[rule_format, of Exo]
      h[rule_format, of Review] h[rule_format, of Mock] by simp
qed

lemma bucket_zero [simp]: "bucket k zero_day = 0"
  by (cases k) (simp_all add: zero_day_def)

lemma day_sum_zero [simp]: "day_sum zero_day = 0"
  by (simp add: day_sum_def zero_day_def)

lemma squeezed_zero: "le_day zero_day r \<Longrightarrow> le_day r zero_day \<Longrightarrow> r = zero_day"
  by (cases r) (simp add: le_day_def zero_day_def)

text \<open>One transfer step: \<open>move\<close> minutes of bucket \<open>k\<close> go from row \<open>s\<close> to row \<open>d\<close>.\<close>

lemma transfer_step:
  fixes pd :: "day_alloc list"
  assumes "s \<noteq> d" "s < length pd" "d < length pd"
    and "pd2 = (pd[s := add_to k (- move) (pd ! s)])[d := add_to k move ((pd[s := add_to k (- move) (pd ! s)]) ! d)]"
  shows "length pd2 = length pd"
    and "pd2 ! s = add_to k (- move) (pd ! s)"
    and "pd2 ! d = add_to k move (pd ! d)"
    and "\<forall>i. i \<noteq> s \<longrightarrow> i \<noteq> d \<longrightarrow> pd2 ! i = pd ! i"
    and "grand_total pd2 = grand_total pd"
  using assms by (simp_all add: grand_total_update)

lemma transfer_conserves:
  assumes "s \<noteq> d" "s < length pd" "d < length pd"
  shows "length (fst (transfer s d ks pd need)) = length pd
         \<and> grand_total (fst (transfer s d ks pd need)) = grand_total pd
         \<and> (\<forall>k. bucket k (fst (transfer s d ks pd need) ! s) + bucket k (fst (transfer s d ks pd need) ! d)
                 = bucket k (pd ! s) + bucket k (pd ! d))
         \<and> (\<forall>i. i \<noteq> s \<longrightarrow> i \<noteq> d \<longrightarrow> fst (transfer s d ks pd need) ! i = pd ! i)"
  using assms
proof (induction ks arbitrary: pd need)
  case Nil
  then show ?case by (simp add: transfer.simps)
next
  case (Cons k ks)
  define move where "move = min (bucket k (pd ! s)) need"
  define pd2 where "pd2 = (pd[s := add_to k (- move) (pd ! s)])[d := add_to k move ((pd[s := add_to k (- move) (pd ! s)]) ! d)]"
  note st = transfer_step[OF Cons.prems pd2_def]
  have bk: "\<forall>k'. bucket k' (pd2 ! s) + bucket k' (pd2 ! d) = bucket k' (pd ! s) + bucket k' (pd ! d)"
    using st(2,3) by (simp add: bucket_add_to)
  have l2: "s < length pd2" "d < length pd2" using st(1) Cons.prems by simp_all
  have IH: "length (fst (transfer s d ks pd2 n)) = length pd2
         \<and> grand_total (fst (transfer s d ks pd2 n)) = grand_total pd2
         \<and> (\<forall>k. bucket k (fst (transfer s d ks pd2 n) ! s) + bucket k (fst (transfer s d ks pd2 n) ! d)
                 = bucket k (pd2 ! s) + bucket k (pd2 ! d))
         \<and> (\<forall>i. i \<noteq> s \<longrightarrow> i \<noteq> d \<longrightarrow> fst (transfer s d ks pd2 n) ! i = pd2 ! i)" for n
    using Cons.IH[OF Cons.prems(1) l2] .
  have unf: "transfer s d (k # ks) pd need =
        (if need - move \<le> 0 then (pd2, need - move) else transfer s d ks pd2 (need - move))"
    by (simp add: transfer.simps Let_def move_def pd2_def)
  show ?case
  proof (cases "need - move \<le> 0")
    case True
    then show ?thesis unfolding unf using st bk by simp
  next
    case False
    then show ?thesis unfolding unf using IH[of "need - move"] st bk by simp
  qed
qed

lemma transfer_nonneg:
  assumes "s \<noteq> d" "s < length pd" "d < length pd" "le_day zero_day (pd ! s)" "0 < need"
  shows "0 \<le> snd (transfer s d ks pd need) \<and> snd (transfer s d ks pd need) \<le> need
         \<and> le_day zero_day (fst (transfer s d ks pd need) ! s)
         \<and> le_day (fst (transfer s d ks pd need) ! s) (pd ! s)
         \<and> le_day (pd ! d) (fst (transfer s d ks pd need) ! d)
         \<and> day_sum (fst (transfer s d ks pd need) ! d) + snd (transfer s d ks pd need) = day_sum (pd ! d) + need"
  using assms
proof (induction ks arbitrary: pd need)
  case Nil
  then show ?case by (simp add: transfer.simps)
next
  case (Cons k ks)
  define move where "move = min (bucket k (pd ! s)) need"
  define pd2 where "pd2 = (pd[s := add_to k (- move) (pd ! s)])[d := add_to k move ((pd[s := add_to k (- move) (pd ! s)]) ! d)]"
  note st = transfer_step[OF Cons.prems(1-3) pd2_def]
  have bs: "0 \<le> bucket k (pd ! s)" using Cons.prems(4) by (simp add: le_day_bucket)
  have mv: "0 \<le> move" "move \<le> need" "move \<le> bucket k (pd ! s)"
    using bs Cons.prems(5) by (simp_all add: move_def)
  have z2: "le_day zero_day (pd2 ! s)"
    using Cons.prems(4) mv unfolding st(2) le_day_bucket by (simp add: bucket_add_to)
  have s2: "le_day (pd2 ! s) (pd ! s)"
    using mv unfolding st(2) le_day_bucket by (simp add: bucket_add_to)
  have d2: "le_day (pd ! d) (pd2 ! d)"
    using mv unfolding st(3) by (simp add: le_day_add_to)
  have ds: "day_sum (pd2 ! d) + (need - move) = day_sum (pd ! d) + need"
    unfolding st(3) by simp
  have l2: "s < length pd2" "d < length pd2" using st(1) Cons.prems by simp_all
  have unf: "transfer s d (k # ks) pd need =
        (if need - move \<le> 0 then (pd2, need - move) else transfer s d ks pd2 (need - move))"
    by (simp add: transfer.simps Let_def move_def pd2_def)
  show ?case
  proof (cases "need - move \<le> 0")
    case True
    then show ?thesis unfolding unf using mv z2 s2 d2 ds by simp
  next
    case False
    then have n2: "0 < need - move" by simp
    note IH = Cons.IH[OF Cons.prems(1) l2 z2 n2]
    have "le_day (fst (transfer s d ks pd2 (need - move)) ! s) (pd ! s)"
      using IH s2 le_day_trans by blast
    moreover have "le_day (pd ! d) (fst (transfer s d ks pd2 (need - move)) ! d)"
      using IH d2 le_day_trans by blast
    ultimately show ?thesis unfolding unf using False IH mv ds by simp
  qed
qed


declare transfer.simps [simp del]

lemma donate_conserves:
  assumes "s \<noteq> d" "0 \<le> s" "0 \<le> d" "nat s < length pd" "nat d < length pd"
  shows "length (fst (donate mind s d pd need)) = length pd
         \<and> grand_total (fst (donate mind s d pd need)) = grand_total pd"
proof -
  have ne: "nat s \<noteq> nat d" using assms(1-3) by simp
  show ?thesis
    unfolding donate_def Let_def using transfer_conserves[OF ne assms(4,5)] by simp
qed

lemma pull_conserves:
  assumes "0 \<le> d" "nat d < length pd" "\<forall>s\<in>set ss. 0 \<le> s \<and> nat s < length pd"
  shows "length (fst (pull mind d ss pd need)) = length pd
         \<and> grand_total (fst (pull mind d ss pd need)) = grand_total pd"
  using assms
proof (induction ss arbitrary: pd need)
  case Nil
  then show ?case by simp
next
  case (Cons s ss)
  show ?case
  proof (cases "s = d")
    case True
    then show ?thesis using Cons by simp
  next
    case False
    obtain pd1 n1 where dn: "donate mind s d pd need = (pd1, n1)" by (cases "donate mind s d pd need")
    have s: "0 \<le> s" "nat s < length pd" using Cons.prems(3) by simp_all
    have c1: "length pd1 = length pd" "grand_total pd1 = grand_total pd"
      using donate_conserves[OF False s(1) Cons.prems(1) s(2) Cons.prems(2), of mind need] dn by simp_all
    have r1: "nat d < length pd1" "\<forall>s\<in>set ss. 0 \<le> s \<and> nat s < length pd1"
      using c1 Cons.prems by simp_all
    show ?thesis using False dn c1 Cons.IH[OF Cons.prems(1) r1] by simp
  qed
qed

lemma pulled_refl: "nonneg_rows pd \<Longrightarrow> 0 \<le> need \<Longrightarrow> pulled d pd need pd need"
  by (simp add: pulled_def)

lemma pulled_trans:
  assumes "pulled d a n b n1" "pulled d b n1 c n2"
  shows "pulled d a n c n2"
  using assms unfolding pulled_def
  by (auto intro: le_day_trans)

lemma donate_pulled:
  assumes "s \<noteq> d" "0 \<le> s" "0 \<le> d" "nat s < length pd" "nat d < length pd"
          "nonneg_rows pd" "0 < need"
  shows "pulled (nat d) pd need (fst (donate mind s d pd need)) (snd (donate mind s d pd need))"
proof (cases "day_sum (pd ! nat s) - need \<ge> mind \<or> day_sum (pd ! nat s) > mind + 60")
  case False
  then show ?thesis using assms(6,7) by (simp add: donate_def pulled_refl)
next
  case True
  let ?ks = "[Review, Exo, Learn, Mock]"
  let ?t = "transfer (nat s) (nat d) ?ks pd need"
  have ne: "nat s \<noteq> nat d" using assms(1-3) by simp
  have zs: "le_day zero_day (pd ! nat s)" and zd: "le_day zero_day (pd ! nat d)"
    using assms(4,5,6) by (simp_all add: nonneg_rows_def)
  note c = transfer_conserves[OF ne assms(4,5), of ?ks need]
  note n = transfer_nonneg[OF ne assms(4,5) zs assms(7), of ?ks]
  have eq: "donate mind s d pd need = ?t" using True by (simp add: donate_def)
  have nn: "nonneg_rows (fst ?t)"
    unfolding nonneg_rows_def
  proof (intro allI impI)
    fix i assume i: "i < length (fst ?t)"
    then have il: "i < length pd" using c by simp
    consider "i = nat s" | "i = nat d" | "i \<noteq> nat s" "i \<noteq> nat d" by blast
    then show "le_day zero_day (fst ?t ! i)"
    proof cases
      case 1 then show ?thesis using n by simp
    next
      case 2 then show ?thesis using n zd le_day_trans by blast
    next
      case 3 then show ?thesis using c il assms(6) by (simp add: nonneg_rows_def)
    qed
  qed
  have oth: "\<forall>i<length pd. i \<noteq> nat d \<longrightarrow> le_day (fst ?t ! i) (pd ! i)"
  proof (intro allI impI)
    fix i assume "i < length pd" "i \<noteq> nat d"
    then show "le_day (fst ?t ! i) (pd ! i)"
      using c n by (cases "i = nat s") simp_all
  qed
  show ?thesis unfolding eq pulled_def using c n nn oth by simp
qed

lemma pull_pulled:
  assumes "0 \<le> d" "nat d < length pd" "\<forall>s\<in>set ss. 0 \<le> s \<and> nat s < length pd"
          "nonneg_rows pd" "0 < need"
  shows "pulled (nat d) pd need (fst (pull mind d ss pd need)) (snd (pull mind d ss pd need))"
  using assms
proof (induction ss arbitrary: pd need)
  case Nil
  then show ?case by (simp add: pulled_refl)
next
  case (Cons s ss)
  show ?case
  proof (cases "s = d")
    case True
    then show ?thesis using Cons by simp
  next
    case False
    obtain pd1 n1 where dn: "donate mind s d pd need = (pd1, n1)" by (cases "donate mind s d pd need")
    have s: "0 \<le> s" "nat s < length pd" using Cons.prems(3) by simp_all
    have p1: "pulled (nat d) pd need pd1 n1"
      using donate_pulled[OF False s(1) Cons.prems(1) s(2) Cons.prems(2,4,5), of mind] dn by simp
    show ?thesis
    proof (cases "n1 \<le> 0")
      case True
      then show ?thesis using False dn p1 by simp
    next
      case more: False
      have l1: "length pd1 = length pd" and nn1: "nonneg_rows pd1" using p1 by (simp_all add: pulled_def)
      have r1: "nat d < length pd1" "\<forall>s\<in>set ss. 0 \<le> s \<and> nat s < length pd1"
        using l1 Cons.prems by simp_all
      have n1: "0 < n1" using more by simp
      have "pulled (nat d) pd1 n1 (fst (pull mind d ss pd1 n1)) (snd (pull mind d ss pd1 n1))"
        using Cons.IH[OF Cons.prems(1) r1 nn1 n1] .
      then show ?thesis using False dn more pulled_trans[OF p1] by simp
    qed
  qed
qed

lemma rebalance_day_conserves:
  assumes "length pd = nat D" "d \<in> set (days_idx D)"
  shows "length (rebalance_day B mind D d pd) = length pd
         \<and> grand_total (rebalance_day B mind D d pd) = grand_total pd"
proof -
  have d: "0 \<le> d" "nat d < length pd" using assms by (auto simp: days_idx_iff)
  have ss: "\<forall>s\<in>set (rev (days_idx D)). 0 \<le> s \<and> nat s < length pd"
    using assms(1) by (auto simp: days_idx_iff)
  show ?thesis
    unfolding rebalance_day_def Let_def using pull_conserves[OF d ss] by simp
qed

lemma rebalance_day_ok:
  assumes len: "length pd = nat D" and dd: "d \<in> set (days_idx D)" and ok: "table_ok B pd"
  shows "table_ok B (rebalance_day B mind D d pd)"
    and "mind \<le> maxd \<Longrightarrow> capped maxd pd \<Longrightarrow> capped maxd (rebalance_day B mind D d pd)"
proof -
  have d: "0 \<le> d" "nat d < length pd" using len dd by (auto simp: days_idx_iff)
  have ss: "\<forall>s\<in>set (rev (days_idx D)). 0 \<le> s \<and> nat s < length pd"
    using len by (auto simp: days_idx_iff)
  have nn: "nonneg_rows pd" using ok by (simp add: table_ok_def)
  let ?need = "mind - day_sum (pd ! nat d)"
  let ?p = "pull mind d (rev (days_idx D)) pd ?need"
  have key: "table_ok B (fst ?p) \<and> (mind \<le> maxd \<longrightarrow> capped maxd pd \<longrightarrow> capped maxd (fst ?p))"
    if nb: "d \<notin> B" and needy: "day_sum (pd ! nat d) < mind"
  proof -
    have n0: "0 < ?need" using needy by simp
    note p = pull_pulled[OF d ss nn n0, of mind, unfolded pulled_def]
    have blk: "\<forall>i<length (fst ?p). int i \<in> B \<longrightarrow> fst ?p ! i = zero_day"
    proof (intro allI impI)
      fix i assume i: "i < length (fst ?p)" "int i \<in> B"
      then have il: "i < length pd" using p by simp
      have "i \<noteq> nat d" using i(2) nb d(1) by auto
      then have "le_day (fst ?p ! i) (pd ! i)" using p il by blast
      moreover have "pd ! i = zero_day" using ok il i(2) by (simp add: table_ok_def)
      moreover have "le_day zero_day (fst ?p ! i)" using p i(1) by (simp add: nonneg_rows_def)
      ultimately show "fst ?p ! i = zero_day" using squeezed_zero by simp
    qed
    have cap: "capped maxd (fst ?p)" if mm: "mind \<le> maxd" and c: "capped maxd pd"
      unfolding capped_def
    proof (intro allI impI)
      fix i assume i: "i < length (fst ?p)"
      then have il: "i < length pd" using p by simp
      show "day_sum (fst ?p ! i) \<le> maxd"
      proof (cases "i = nat d")
        case True
        have "day_sum (fst ?p ! nat d) \<le> mind" using p by linarith
        then show ?thesis using True mm by simp
      next
        case False
        then have "le_day (fst ?p ! i) (pd ! i)" using p il by blast
        then have "day_sum (fst ?p ! i) \<le> day_sum (pd ! i)" by (rule le_day_sum)
        then show ?thesis using c il unfolding capped_def by force
      qed
    qed
    show ?thesis using p blk cap by (simp add: table_ok_def)
  qed
  show "table_ok B (rebalance_day B mind D d pd)"
    unfolding rebalance_day_def Let_def using key ok by simp
  show "mind \<le> maxd \<Longrightarrow> capped maxd pd \<Longrightarrow> capped maxd (rebalance_day B mind D d pd)"
    unfolding rebalance_day_def Let_def using key by simp
qed

lemma fold_rebalance_day:
  assumes "length pd = nat D" "set ds \<subseteq> set (days_idx D)"
  shows "length (fold (rebalance_day B mind D) ds pd) = length pd
         \<and> grand_total (fold (rebalance_day B mind D) ds pd) = grand_total pd
         \<and> (table_ok B pd \<longrightarrow> table_ok B (fold (rebalance_day B mind D) ds pd))
         \<and> (table_ok B pd \<longrightarrow> mind \<le> maxd \<longrightarrow> capped maxd pd
              \<longrightarrow> capped maxd (fold (rebalance_day B mind D) ds pd))"
  using assms
proof (induction ds arbitrary: pd)
  case Nil
  then show ?case by simp
next
  case (Cons d ds)
  have dd: "d \<in> set (days_idx D)" and rest: "set ds \<subseteq> set (days_idx D)" using Cons.prems(2) by simp_all
  let ?pd1 = "rebalance_day B mind D d pd"
  note c = rebalance_day_conserves[OF Cons.prems(1) dd, where B = B and mind = mind]
  have l1: "length ?pd1 = nat D" using c Cons.prems(1) by simp
  note IH = Cons.IH[OF l1 rest]
  have ok: "table_ok B pd \<Longrightarrow> table_ok B ?pd1"
    "table_ok B pd \<Longrightarrow> mind \<le> maxd \<Longrightarrow> capped maxd pd \<Longrightarrow> capped maxd ?pd1"
    using rebalance_day_ok[OF Cons.prems(1) dd] by blast+
  show ?case using IH c ok by simp
qed

lemma rebalance_ok:
  assumes "length pd = nat D"
  shows "length (rebalance B mind D pd) = length pd"
    and "grand_total (rebalance B mind D pd) = grand_total pd"
    and "table_ok B pd \<Longrightarrow> table_ok B (rebalance B mind D pd)"
    and "table_ok B pd \<Longrightarrow> mind \<le> maxd \<Longrightarrow> capped maxd pd \<Longrightarrow> capped maxd (rebalance B mind D pd)"
  using fold_rebalance_day[OF assms subset_refl, where B = B and mind = mind and maxd = maxd] unfolding rebalance_def by simp_all

lemma sum_list_days_idx:
  "length pd = nat D \<Longrightarrow> sum_list (map (\<lambda>d. f (pd ! nat d)) (days_idx D)) = sum_list (map f pd)"
proof -
  assume l: "length pd = nat D"
  have "map (\<lambda>d. f (pd ! nat d)) (days_idx D) = map (\<lambda>i. f (pd ! i)) [0..<length pd]"
    unfolding days_idx_def l by simp
  also have "\<dots> = map f (map ((!) pd) [0..<length pd])" by simp
  also have "\<dots> = map f pd" by (simp only: map_nth)
  finally show ?thesis by simp
qed

lemma item_total_plan_item [simp]: "item_total (plan_item st pd d) = day_sum (pd ! nat d)"
  by (simp add: item_total_def plan_item_def day_sum_def)

lemma schedule_total_items:
  "length pd = nat D \<Longrightarrow> schedule_total (map (plan_item st pd) (days_idx D)) = grand_total pd"
  using sum_list_days_idx[of pd D day_sum]
  by (simp add: schedule_total_def grand_total_def comp_def)

lemma replicate_table_ok: "table_ok B (replicate n zero_day)"
  by (simp add: table_ok_def nonneg_rows_def)

lemma grows_table_ok:
  assumes "grows maxd B pd pd'" "table_ok B pd"
  shows "table_ok B pd'"
  using assms unfolding grows_def table_ok_def nonneg_rows_def
  by (metis le_day_trans)

lemma grows_capped:
  assumes "grows maxd B pd pd'" "capped maxd pd"
  shows "capped maxd pd'"
  using assms unfolding grows_def capped_def
  by (metis max.absorb1)

lemma capacity_bound:
  assumes "table_ok B pd" "capped maxd pd" "length pd = nat D"
  shows "grand_total pd \<le> sum_list (map (\<lambda>d. if d \<in> B then 0 else maxd) (days_idx D))"
proof -
  have "sum_list (map (\<lambda>d. day_sum (pd ! nat d)) (days_idx D))
        \<le> sum_list (map (\<lambda>d. if d \<in> B then 0 else maxd) (days_idx D))"
  proof (rule sum_list_mono)
    fix d assume "d \<in> set (days_idx D)"
    then have d: "0 \<le> d" "nat d < length pd" using assms(3) by (auto simp: days_idx_iff)
    show "day_sum (pd ! nat d) \<le> (if d \<in> B then 0 else maxd)"
      using assms(1,2) d unfolding table_ok_def capped_def by auto
  qed
  then show ?thesis using sum_list_days_idx[OF assms(3), of day_sum] by (simp add: grand_total_def)
qed

lemma capacity_full:
  assumes "all_full maxd B D pd" "table_ok B pd" "length pd = nat D"
  shows "sum_list (map (\<lambda>d. if d \<in> B then 0 else maxd) (days_idx D)) \<le> grand_total pd"
proof -
  have "sum_list (map (\<lambda>d. if d \<in> B then 0 else maxd) (days_idx D))
        \<le> sum_list (map (\<lambda>d. day_sum (pd ! nat d)) (days_idx D))"
  proof (rule sum_list_mono)
    fix d assume dd: "d \<in> set (days_idx D)"
    then have d: "0 \<le> d" "nat d < length pd" using assms(3) by (auto simp: days_idx_iff)
    show "(if d \<in> B then 0 else maxd) \<le> day_sum (pd ! nat d)"
      using assms(1,2) d dd unfolding table_ok_def all_full_def by auto
  qed
  then show ?thesis using sum_list_days_idx[OF assms(3), of day_sum] by (simp add: grand_total_def)
qed

text \<open>What the four placement passes leave behind on a valid input.\<close>

lemma placement_table:
  assumes "valid_input lb eb rb mb c"
  shows "\<exists>pd. placement lb eb rb mb c = Inr pd \<and> length pd = nat (days_available c)
           \<and> table_ok (blocked_set c) pd
           \<and> (0 \<le> max_minutes_per_day c \<longrightarrow> capped (max_minutes_per_day c) pd)
           \<and> (0 \<le> max_minutes_per_day c \<longrightarrow>
                grand_total pd = min (lb + eb + rb + mb) (capacity c))"
proof -
  let ?D = "days_available c" and ?B = "blocked_set c" and ?M = "max_minutes_per_day c"
  let ?pd0 = "replicate (nat ?D) zero_day"
  from placement_ok[OF assms] obtain pd where
    h: "placement lb eb rb mb c = Inr pd" "placed ?M ?B ?D ?pd0 (lb + eb + rb + mb) pd" by blast
  have g: "grows ?M ?B ?pd0 pd" using h(2) by (simp add: placed_def)
  have l: "length pd = nat ?D" using g by (simp add: grows_def)
  have ok: "table_ok ?B pd" using grows_table_ok[OF g replicate_table_ok] .
  have cp: "capped ?M pd" if "0 \<le> ?M"
    by (rule grows_capped[OF g]) (use that in \<open>simp add: capped_def\<close>)
  have gt0: "grand_total ?pd0 = 0" by (simp add: grand_total_def sum_list_replicate)
  have tot: "grand_total pd = min (lb + eb + rb + mb) (capacity c)" if m: "0 \<le> ?M"
  proof -
    have ub: "grand_total pd \<le> capacity c"
      using capacity_bound[OF ok cp[OF m] l] by (simp add: capacity_def)
    have le: "grand_total pd \<le> lb + eb + rb + mb" using h(2) gt0 by (simp add: placed_def)
    have "grand_total pd = lb + eb + rb + mb \<or> all_full ?M ?B ?D pd"
      using h(2) gt0 by (simp add: placed_def)
    then show ?thesis
    proof
      assume "grand_total pd = lb + eb + rb + mb"
      then show ?thesis using ub by simp
    next
      assume "all_full ?M ?B ?D pd"
      then have "capacity c \<le> grand_total pd"
        using capacity_full[OF _ ok l] by (simp add: capacity_def)
      then show ?thesis using ub le by simp
    qed
  qed
  show ?thesis using h(1) l ok cp tot by blast
qed

text \<open>The final loop: it returns all rows, or stops at the first date out of range.\<close>

lemma build_items_no_overflow:
  "\<forall>d\<in>set ds. \<not> date_overflows st d \<Longrightarrow> build_items st pd ds = Inr (map (plan_item st pd) ds)"
  by (induction ds) (simp_all add: make_item_def)

lemma build_items_overflow:
  "\<exists>d\<in>set ds. date_overflows st d \<Longrightarrow> build_items st pd ds = Inl OverflowError"
proof (induction ds)
  case Nil
  then show ?case by simp
next
  case (Cons a ds)
  show ?case
  proof (cases "date_overflows st a")
    case True
    then show ?thesis by (simp add: make_item_def)
  next
    case False
    then have "build_items st pd ds = Inl OverflowError" using Cons by auto
    then show ?thesis using False by (simp add: make_item_def)
  qed
qed

lemma fits_no_overflow:
  assumes "start_date_fits c st" "d \<in> set (days_idx (days_available c))"
  shows "\<not> date_overflows st d"
  using assms
  by (auto simp: start_date_fits_def date_overflows_def date_max_ordinal_def days_idx_iff
           split: option.splits)

lemma build_items_fits:
  assumes "start_date_fits c st"
  shows "build_items st pd (days_idx (days_available c))
           = Inr (map (plan_item st pd) (days_idx (days_available c)))"
  using fits_no_overflow[OF assms] by (intro build_items_no_overflow) blast

text \<open>The same for the complete run, rebalancing included.\<close>

lemma distribute_table:
  assumes "valid_input lb eb rb mb c" and fits: "start_date_fits c st"
  shows "\<exists>pd. distribute_minutes_over_days lb eb rb mb c st
                 = Inr (map (plan_item st pd) (days_idx (days_available c)))
           \<and> length pd = nat (days_available c)
           \<and> table_ok (blocked_set c) pd
           \<and> (0 \<le> max_minutes_per_day c \<longrightarrow> min_minutes_per_day c \<le> max_minutes_per_day c
                \<longrightarrow> capped (max_minutes_per_day c) pd)
           \<and> (0 \<le> max_minutes_per_day c \<longrightarrow>
                grand_total pd = min (lb + eb + rb + mb) (capacity c))"
proof -
  let ?D = "days_available c" and ?B = "blocked_set c" and ?M = "max_minutes_per_day c"
  let ?m = "min_minutes_per_day c"
  from placement_table[OF assms(1)] obtain pd where
    h: "placement lb eb rb mb c = Inr pd" "length pd = nat ?D" "table_ok ?B pd"
       "0 \<le> ?M \<longrightarrow> capped ?M pd"
       "0 \<le> ?M \<longrightarrow> grand_total pd = min (lb + eb + rb + mb) (capacity c)" by blast
  let ?pd = "rebalance ?B ?m ?D pd"
  have r: "length ?pd = length pd" "grand_total ?pd = grand_total pd"
    "table_ok ?B pd \<Longrightarrow> table_ok ?B ?pd"
    "table_ok ?B pd \<Longrightarrow> ?m \<le> ?M \<Longrightarrow> capped ?M pd \<Longrightarrow> capped ?M ?pd"
    using rebalance_ok[OF h(2)] by blast+
  have "distribute_minutes_over_days lb eb rb mb c st = Inr (map (plan_item st ?pd) (days_idx ?D))"
    using h(1) by (simp add: distribute_minutes_over_days_def build_items_fits[OF fits])
  moreover have "length ?pd = nat ?D" using r(1) h(2) by simp
  moreover have "table_ok ?B ?pd" using r(3) h(3) by simp
  moreover have "0 \<le> ?M \<longrightarrow> ?m \<le> ?M \<longrightarrow> capped ?M ?pd" using r(4) h(3,4) by simp
  moreover have "0 \<le> ?M \<longrightarrow> grand_total ?pd = min (lb + eb + rb + mb) (capacity c)"
    using r(2) h(5) by simp
  ultimately show ?thesis by blast
qed

lemma blocked_scenario_valid: "valid_input 600 300 120 90 blocked_scenario"
  by (simp add: valid_input_def blocked_scenario_def blocked_set_def)

lemma items_day_index: "map day_index (map (plan_item st pd) ds) = ds"
  by (induction ds) (simp_all add: plan_item_def)

lemma items_member:
  "it \<in> set (map (plan_item st pd) (days_idx D)) \<Longrightarrow> length pd = nat D \<Longrightarrow>
     nat (day_index it) < length pd \<and> int (nat (day_index it)) = day_index it
     \<and> it = plan_item st pd (day_index it)"
  by (auto simp: days_idx_iff plan_item_def)

section \<open>Blocked days\<close>

text \<open>
  Claim C3: on every valid input (at least one day, blocked days inside the day range,
  non-negative budgets), with no start date or one whose last day is still a date, the call
  returns a schedule with one row per day index, and every row whose day index is blocked
  has all four buckets equal to 0, after the four placement passes, their spill-over pushes
  and the rebalancing pass.
\<close>

theorem blocked_days_all_zero:
  assumes "valid_input lb eb rb mb c" and "start_date_fits c st"
  shows "\<exists>items. distribute_minutes_over_days lb eb rb mb c st = Inr items
           \<and> map day_index items = days_idx (days_available c)
           \<and> (\<forall>it\<in>set items. day_index it \<in> blocked_set c \<longrightarrow>
                 learn_min it = 0 \<and> exercises_min it = 0 \<and> review_min it = 0 \<and> mock_min it = 0)"
proof -
  let ?D = "days_available c"
  from distribute_table[OF assms] obtain pd where
    h: "distribute_minutes_over_days lb eb rb mb c st = Inr (map (plan_item st pd) (days_idx ?D))"
       "length pd = nat ?D" "table_ok (blocked_set c) pd" by blast
  have "learn_min it = 0 \<and> exercises_min it = 0 \<and> review_min it = 0 \<and> mock_min it = 0"
    if it: "it \<in> set (map (plan_item st pd) (days_idx ?D))" and b: "day_index it \<in> blocked_set c" for it
  proof -
    note m = items_member[OF it h(2)]
    have "pd ! nat (day_index it) = zero_day"
      using h(3) m b unfolding table_ok_def by metis
    then show ?thesis using m by (metis plan_item_def zero_day_def PlanItem.select_convs(3-6) day_alloc.select_convs(1-4))
  qed
  then show ?thesis using h(1) items_day_index by blast
qed

lemma blocked_scenario_date: "start_date_fits blocked_scenario (Some 738886)"
  by (simp add: start_date_fits_def blocked_scenario_def date_max_ordinal_def)

theorem blocked_days_all_zero_witness:
  "valid_input 600 300 120 90 blocked_scenario
   \<and> start_date_fits blocked_scenario (Some 738886)
   \<and> (\<exists>items. distribute_minutes_over_days 600 300 120 90 blocked_scenario (Some 738886) = Inr items
           \<and> map day_index items = days_idx (days_available blocked_scenario)
           \<and> (\<forall>it\<in>set items. day_index it \<in> blocked_set blocked_scenario \<longrightarrow>
                 learn_min it = 0 \<and> exercises_min it = 0 \<and> review_min it = 0 \<and> mock_min it = 0))"
  using blocked_scenario_valid blocked_scenario_date
    blocked_days_all_zero[OF blocked_scenario_valid blocked_scenario_date]
  by blast

lemma single_day_valid: "valid_input 300 0 0 0 single_day"
  by (simp add: valid_input_def single_day_def blocked_set_def)

lemma capacity_blocked_scenario: "capacity blocked_scenario = 720"
  unfolding blocked_scenario_def by code_simp

lemma sum_list_nonpos_member:
  fixes f :: "'a \<Rightarrow> int"
  shows "(\<forall>x\<in>set xs. f x \<le> 0) \<Longrightarrow> d \<in> set xs \<Longrightarrow> sum_list (map f xs) \<le> f d"
proof (induction xs)
  case Nil
  then show ?case by simp
next
  case (Cons a xs)
  have np: "sum_list (map f xs) \<le> 0" using Cons.prems(1) by (intro sum_list_nonpos) auto
  show ?case
  proof (cases "d = a")
    case True
    then show ?thesis using np by simp
  next
    case False
    then have "sum_list (map f xs) \<le> f d" using Cons by simp
    moreover have "f a \<le> 0" using Cons.prems(1) by simp
    ultimately show ?thesis by simp
  qed
qed

text \<open>A negative cap leaves no capacity for a budget unless every day is blocked.\<close>

lemma negative_cap_all_blocked:
  assumes "max_minutes_per_day c < 0" "0 \<le> capacity c" "d \<in> set (days_idx (days_available c))"
  shows "d \<in> blocked_set c"
proof (rule ccontr)
  assume nb: "d \<notin> blocked_set c"
  let ?f = "\<lambda>d. if d \<in> blocked_set c then 0 else max_minutes_per_day c"
  have "\<forall>x\<in>set (days_idx (days_available c)). ?f x \<le> 0" using assms(1) by simp
  from sum_list_nonpos_member[of "days_idx (days_available c)" ?f, OF this assms(3)]
  have "capacity c \<le> max_minutes_per_day c" using nb by (simp add: capacity_def)
  then show False using assms(1,2) by linarith
qed

section \<open>The daily cap\<close>

text \<open>
  Claim C4: with \<open>min_minutes_per_day \<le> max_minutes_per_day\<close> on a valid input whose
  budget does not exceed the capacity (the sum of the cap over the non-blocked days, so the
  run is not in capacity-overflow mode), no non-blocked day exceeds the cap: neither in the
  table the four placement passes leave behind, nor in the schedule returned after the
  rebalancing pass (returned when there is no start date, or one whose last day is still a
  date).
\<close>

theorem day_totals_within_cap:
  assumes "valid_input lb eb rb mb c"
      and "min_minutes_per_day c \<le> max_minutes_per_day c"
      and "lb + eb + rb + mb \<le> capacity c"
      and "start_date_fits c st"
  shows "\<exists>pd items. placement lb eb rb mb c = Inr pd
           \<and> (\<forall>i<length pd. int i \<notin> blocked_set c \<longrightarrow> day_sum (pd ! i) \<le> max_minutes_per_day c)
           \<and> distribute_minutes_over_days lb eb rb mb c st = Inr items
           \<and> map day_index items = days_idx (days_available c)
           \<and> (\<forall>it\<in>set items. day_index it \<notin> blocked_set c \<longrightarrow>
                 item_total it \<le> max_minutes_per_day c)"
proof -
  let ?D = "days_available c" and ?M = "max_minutes_per_day c" and ?B = "blocked_set c"
  from placement_table[OF assms(1)] obtain pd where
    p: "placement lb eb rb mb c = Inr pd" "length pd = nat ?D" "0 \<le> ?M \<longrightarrow> capped ?M pd" by blast
  from distribute_table[OF assms(1,4)] obtain pd' where
    h: "distribute_minutes_over_days lb eb rb mb c st = Inr (map (plan_item st pd') (days_idx ?D))"
       "length pd' = nat ?D" "0 \<le> ?M \<longrightarrow> min_minutes_per_day c \<le> ?M \<longrightarrow> capped ?M pd'" by blast
  have cap0: "0 \<le> capacity c" using assms(1,3) by (simp add: valid_input_def)
  have row: "day_sum (q ! i) \<le> ?M"
    if q: "length q = nat ?D" "0 \<le> ?M \<longrightarrow> capped ?M q" and i: "i < length q" "int i \<notin> ?B" for q i
  proof (cases "0 \<le> ?M")
    case True
    then show ?thesis using q(2) i(1) by (simp add: capped_def)
  next
    case False
    have "int i \<in> set (days_idx ?D)" using i(1) q(1) by (simp add: days_idx_iff)
    then have "int i \<in> ?B" using negative_cap_all_blocked[OF _ cap0] False by simp
    then show ?thesis using i(2) by simp
  qed
  have a: "\<forall>i<length pd. int i \<notin> ?B \<longrightarrow> day_sum (pd ! i) \<le> ?M"
    using row[OF p(2,3)] by blast
  have b: "item_total it \<le> ?M"
    if it: "it \<in> set (map (plan_item st pd') (days_idx ?D))" and nb: "day_index it \<notin> ?B" for it
  proof -
    note m = items_member[OF it h(2)]
    have "day_sum (pd' ! nat (day_index it)) \<le> ?M"
      using row[OF h(2) _, of "nat (day_index it)"] h(3) assms(2) m nb by simp
    moreover have "item_total it = day_sum (pd' ! nat (day_index it))"
      using m item_total_plan_item by metis
    ultimately show ?thesis by simp
  qed
  show ?thesis using p(1) a h(1) b items_day_index by blast
qed

lemma blocked_scenario_fits:
  "min_minutes_per_day blocked_scenario \<le> max_minutes_per_day blocked_scenario
   \<and> 100 + 200 + 120 + 90 \<le> capacity blocked_scenario"
  by (simp add: capacity_blocked_scenario) (simp add: blocked_scenario_def)

theorem day_totals_within_cap_witness:
  "valid_input 100 200 120 90 blocked_scenario
   \<and> min_minutes_per_day blocked_scenario \<le> max_minutes_per_day blocked_scenario
   \<and> 100 + 200 + 120 + 90 \<le> capacity blocked_scenario
   \<and> start_date_fits blocked_scenario (Some 738886)
   \<and> (\<exists>pd items. placement 100 200 120 90 blocked_scenario = Inr pd
           \<and> (\<forall>i<length pd. int i \<notin> blocked_set blocked_scenario \<longrightarrow>
                 day_sum (pd ! i) \<le> max_minutes_per_day blocked_scenario)
           \<and> distribute_minutes_over_days 100 200 120 90 blocked_scenario (Some 738886) = Inr items
           \<and> map day_index items = days_idx (days_available blocked_scenario)
           \<and> (\<forall>it\<in>set items. day_index it \<notin> blocked_set blocked_scenario \<longrightarrow>
                 item_total it \<le> max_minutes_per_day blocked_scenario))"
proof -
  have v: "valid_input 100 200 120 90 blocked_scenario"
    by (simp add: valid_input_def blocked_scenario_def blocked_set_def)
  have m: "min_minutes_per_day blocked_scenario \<le> max_minutes_per_day blocked_scenario"
    using blocked_scenario_fits by simp
  have f: "100 + 200 + 120 + 90 \<le> capacity blocked_scenario"
    using blocked_scenario_fits by simp
  show ?thesis
    using v m f blocked_scenario_date day_totals_within_cap[OF v m f blocked_scenario_date]
    by blast
qed

section \<open>Non-negative buckets\<close>

text \<open>
  Claim C10: on every valid input every bucket of every day is non-negative, both in the
  table the four placement passes produce and in the schedule returned after rebalancing
  (returned when there is no start date, or one whose last day is still a date).
\<close>

theorem buckets_never_negative:
  assumes "valid_input lb eb rb mb c" and "start_date_fits c st"
  shows "\<exists>pd items. placement lb eb rb mb c = Inr pd \<and> nonneg_rows pd
           \<and> distribute_minutes_over_days lb eb rb mb c st = Inr items
           \<and> map day_index items = days_idx (days_available c)
           \<and> (\<forall>it\<in>set items. 0 \<le> learn_min it \<and> 0 \<le> exercises_min it
                                  \<and> 0 \<le> review_min it \<and> 0 \<le> mock_min it)"
proof -
  let ?D = "days_available c"
  from placement_table[OF assms(1)] obtain pd where
    p: "placement lb eb rb mb c = Inr pd" "table_ok (blocked_set c) pd" by blast
  from distribute_table[OF assms] obtain pd' where
    h: "distribute_minutes_over_days lb eb rb mb c st = Inr (map (plan_item st pd') (days_idx ?D))"
       "length pd' = nat ?D" "table_ok (blocked_set c) pd'" by blast
  have b: "0 \<le> learn_min it \<and> 0 \<le> exercises_min it \<and> 0 \<le> review_min it \<and> 0 \<le> mock_min it"
    if it: "it \<in> set (map (plan_item st pd') (days_idx ?D))" for it
  proof -
    note m = items_member[OF it h(2)]
    have z: "le_day zero_day (pd' ! nat (day_index it))"
      using h(3) m unfolding table_ok_def nonneg_rows_def by blast
    have "it = plan_item st pd' (day_index it)" using m by simp
    then have "learn_min it = learn (pd' ! nat (day_index it))"
      "exercises_min it = exo (pd' ! nat (day_index it))"
      "review_min it = review (pd' ! nat (day_index it))"
      "mock_min it = mock (pd' ! nat (day_index it))"
      by (metis plan_item_def PlanItem.select_convs(3-6))+
    then show ?thesis using z by (simp add: le_day_def zero_day_def)
  qed
  show ?thesis using p h(1) b items_day_index unfolding table_ok_def by blast
qed

theorem buckets_never_negative_witness:
  "valid_input 600 300 120 90 blocked_scenario
   \<and> start_date_fits blocked_scenario (Some 738886)
   \<and> (\<exists>pd items. placement 600 300 120 90 blocked_scenario = Inr pd \<and> nonneg_rows pd
           \<and> distribute_minutes_over_days 600 300 120 90 blocked_scenario (Some 738886) = Inr items
           \<and> map day_index items = days_idx (days_available blocked_scenario)
           \<and> (\<forall>it\<in>set items. 0 \<le> learn_min it \<and> 0 \<le> exercises_min it
                                  \<and> 0 \<le> review_min it \<and> 0 \<le> mock_min it))"
  using blocked_scenario_valid blocked_scenario_date
    buckets_never_negative[OF blocked_scenario_valid blocked_scenario_date]
  by blast

section \<open>Rebalancing conserves minutes\<close>

text \<open>
  Claim C5: whatever the table holds when the rebalancing pass starts (one row per day),
  the pass keeps the number of rows and the grand total; and every transfer takes from the
  donor row exactly what it adds to the needy row, bucket by bucket, leaving all other rows
  untouched.
\<close>

theorem rebalancing_keeps_grand_total:
  assumes "length pd = nat D"
  shows "length (rebalance B mind D pd) = length pd
         \<and> grand_total (rebalance B mind D pd) = grand_total pd
         \<and> (\<forall>s d ks need. s \<noteq> d \<longrightarrow> s < length pd \<longrightarrow> d < length pd \<longrightarrow>
               grand_total (fst (transfer s d ks pd need)) = grand_total pd
               \<and> (\<forall>k. bucket k (fst (transfer s d ks pd need) ! s)
                        + bucket k (fst (transfer s d ks pd need) ! d)
                      = bucket k (pd ! s) + bucket k (pd ! d))
               \<and> (\<forall>i. i \<noteq> s \<longrightarrow> i \<noteq> d \<longrightarrow> fst (transfer s d ks pd need) ! i = pd ! i))"
  using rebalance_ok(1,2)[OF assms] transfer_conserves by blast

lemma uneven_table_run:
  "rebalance {} 60 2 uneven_table =
     [\<lparr>learn = 190, exo = 0, review = 0, mock = 0\<rparr>,
      \<lparr>learn = 20, exo = 0, review = 40, mock = 0\<rparr>]"
  unfolding uneven_table_def by code_simp

theorem rebalancing_keeps_grand_total_witness:
  "length uneven_table = nat 2
   \<and> rebalance {} 60 2 uneven_table \<noteq> uneven_table
   \<and> grand_total (rebalance {} 60 2 uneven_table) = grand_total uneven_table
   \<and> grand_total uneven_table = 250"
proof -
  have l: "length uneven_table = nat 2" by (simp add: uneven_table_def)
  have "rebalance {} 60 2 uneven_table \<noteq> uneven_table"
    unfolding uneven_table_run by (simp add: uneven_table_def)
  moreover have "grand_total uneven_table = 250"
    by (simp add: uneven_table_def grand_total_def day_sum_def)
  ultimately show ?thesis using l rebalancing_keeps_grand_total[OF l, of "{}" 60] by blast
qed

section \<open>A budget larger than the capacity\<close>

lemma single_day_run:
  "distribute_minutes_over_days 300 0 0 0 single_day None = Inr single_day_schedule"
  unfolding single_day_def single_day_schedule_def by code_simp

text \<open>
  Claim C1 at the input: one day, cap 240, 300 learning minutes.  The second
  \<open>push\<close> of the learning pass obeys the same cap as the first, so it places nothing and
  its remainder is discarded: the schedule holds 240 minutes, 60 fewer than the budget,
  while \<open>build_study_plan\<close> reports \<open>total_minutes = 300\<close> next to it.
\<close>

theorem overflow_minutes_are_dropped:
  "distribute_minutes_over_days 300 0 0 0 single_day None = Inr single_day_schedule
   \<and> schedule_total single_day_schedule = 240
   \<and> capacity single_day = 240
   \<and> build_study_plan [''slide''] 300 0 0 0 single_day None
       = Inr \<lparr>total_minutes = 300, per_day = single_day_schedule,
              breakdown = [(''learn'', 300), (''exercises'', 0), (''review'', 0), (''mock'', 0)]\<rparr>"
proof -
  have "capacity single_day = 240" unfolding single_day_def by code_simp
  then show ?thesis using single_day_run
    by (simp add: build_study_plan_def UNIT_BASE_MIN_keys_def single_day_schedule_def
                  schedule_total_def item_total_def)
qed

text \<open>
  The part of claim C1 the code does keep: with a non-negative cap the schedule holds
  exactly \<open>min budget capacity\<close> minutes, so all minutes are placed whenever the budget
  fits the capacity, and the minutes beyond the capacity are the ones that are lost.
\<close>

lemma schedule_total_min_budget_capacity:
  assumes "valid_input lb eb rb mb c" "0 \<le> max_minutes_per_day c" "start_date_fits c st"
  shows "\<exists>items. distribute_minutes_over_days lb eb rb mb c st = Inr items
           \<and> schedule_total items = min (lb + eb + rb + mb) (capacity c)"
proof -
  from distribute_table[OF assms(1,3)] obtain pd where
    h: "distribute_minutes_over_days lb eb rb mb c st
          = Inr (map (plan_item st pd) (days_idx (days_available c)))"
       "length pd = nat (days_available c)"
       "0 \<le> max_minutes_per_day c \<longrightarrow> grand_total pd = min (lb + eb + rb + mb) (capacity c)"
    by blast
  show ?thesis using h assms(2) schedule_total_items[OF h(2), of st] by simp
qed

section \<open>Configuration errors\<close>

text \<open>With in-range day orders \<open>push\<close> returns, whatever the sign of the minutes.\<close>

lemma push_returns:
  assumes "\<forall>d\<in>set order. 0 \<le> d \<and> d < int (length pd)"
  shows "\<exists>pd' r. push B maxd k order pd rem = Inr (pd', r) \<and> length pd' = length pd"
  using assms
proof (induction order arbitrary: pd rem)
  case Nil
  then show ?case by simp
next
  case (Cons d ds)
  have rng: "0 \<le> d" "d < int (length pd)" using Cons.prems by simp_all
  have ih: "\<exists>pd' r. push B maxd k ds q n = Inr (pd', r) \<and> length pd' = length pd"
    if "length q = length pd" for q n
    using Cons.IH[of q n] Cons.prems that by simp
  define alloc where "alloc = min (maxd - day_sum (pd ! nat d)) rem"
  define q where "q = pd[nat d := add_to k alloc (pd ! nat d)]"
  have lq: "length q = length pd" by (simp add: q_def)
  show ?case
  proof (cases "d \<in> B \<or> maxd - day_sum (pd ! nat d) \<le> 0")
    case True
    then have "push B maxd k (d # ds) pd rem = push B maxd k ds pd rem"
      by (auto simp: py_index_in_range[OF rng])
    then show ?thesis using ih[of pd rem] by simp
  next
    case False
    then have unf: "push B maxd k (d # ds) pd rem =
        (if rem - alloc \<le> 0 then Inr (q, rem - alloc) else push B maxd k ds q (rem - alloc))"
      by (simp add: py_index_in_range[OF rng] Let_def alloc_def q_def)
    show ?thesis
    proof (cases "rem - alloc \<le> 0")
      case True
      then show ?thesis unfolding unf using lq by simp
    next
      case False
      then show ?thesis unfolding unf using ih[OF lq, of "rem - alloc"] by simp
    qed
  qed
qed

lemma push_spill_returns:
  assumes "\<forall>d\<in>set order. 0 \<le> d \<and> d < int (length pd)"
          "\<forall>d\<in>set spill_order. 0 \<le> d \<and> d < int (length pd)"
  shows "\<exists>pd'. push_spill B maxd k m order spill_order pd = Inr pd' \<and> length pd' = length pd"
proof -
  from push_returns[OF assms(1), of B maxd k m] obtain pd1 r1 where
    h1: "push B maxd k order pd m = Inr (pd1, r1)" "length pd1 = length pd" by blast
  have "\<forall>d\<in>set spill_order. 0 \<le> d \<and> d < int (length pd1)" using assms(2) h1(2) by simp
  from push_returns[OF this, of B maxd k r1] obtain pd2 r2 where
    h2: "push B maxd k spill_order pd1 r1 = Inr (pd2, r2)" "length pd2 = length pd1" by blast
  show ?thesis using h1 h2 by (simp add: push_spill_def)
qed

lemma review_waves_returns:
  assumes "\<forall>w\<in>set ws. 0 \<le> hd w \<and> hd w \<le> D - 1" "1 \<le> D" "length pd = nat D"
  shows "\<exists>pd'. review_waves B maxd D share spill i ws pd = Inr pd' \<and> length pd' = nat D"
  using assms
proof (induction ws arbitrary: i pd)
  case Nil
  then show ?case by simp
next
  case (Cons w ws)
  have hw: "0 \<le> hd w" "hd w \<le> D - 1" using Cons.prems(1) by auto
  have o1: "\<forall>d\<in>set (around D (hd w)). 0 \<le> d \<and> d < int (length pd)"
    using around_sub[OF Cons.prems(2) hw] Cons.prems(2,3) by auto
  have o2: "\<forall>d\<in>set (days_idx D). 0 \<le> d \<and> d < int (length pd)"
    using Cons.prems(3) by (auto simp: days_idx_iff)
  from push_spill_returns[OF o1 o2, of B maxd Review "share + (if int i < spill then 1 else 0)"]
  obtain pd1 where h1: "push_spill B maxd Review (share + (if int i < spill then 1 else 0))
        (around D (hd w)) (days_idx D) pd = Inr pd1" "length pd1 = length pd" by blast
  have l1: "length pd1 = nat D" using h1(2) Cons.prems(3) by simp
  have rest: "\<forall>w\<in>set ws. 0 \<le> hd w \<and> hd w \<le> D - 1" using Cons.prems(1) by simp
  show ?case using Cons.IH[OF rest Cons.prems(2) l1, of "Suc i"] h1(1) by simp
qed

lemma placement_returns:
  assumes "1 \<le> days_available c"
  shows "\<exists>pd. placement lb eb rb mb c = Inr pd \<and> length pd = nat (days_available c)"
proof -
  let ?D = "days_available c" and ?B = "blocked_set c" and ?M = "max_minutes_per_day c"
  let ?pd0 = "replicate (nat ?D) zero_day"
  have rng: "\<forall>d\<in>set ds. 0 \<le> d \<and> d < int (length q)"
    if "\<forall>d\<in>set ds. 0 \<le> d \<and> d < ?D" "length q = nat ?D" for ds q
    using that by auto
  have od: "\<forall>d\<in>set (days_idx ?D). 0 \<le> d \<and> d < ?D" by (simp add: days_idx_iff)
  have orv: "\<forall>d\<in>set (rev (days_idx ?D)). 0 \<le> d \<and> d < ?D" by (simp add: days_idx_iff)
  have oe: "\<forall>d\<in>set (order_exo ?D). 0 \<le> d \<and> d < ?D" using order_exo_sub by blast
  have om: "\<forall>d\<in>set (order_mock ?D). 0 \<le> d \<and> d < ?D" using order_mock_sub by blast
  have l0: "length ?pd0 = nat ?D" by simp
  from push_spill_returns[OF rng[OF od l0] rng[OF orv l0], of ?B ?M Learn lb] obtain pd1 where
    h1: "push_spill ?B ?M Learn lb (days_idx ?D) (rev (days_idx ?D)) ?pd0 = Inr pd1"
        "length pd1 = nat ?D" by auto
  from push_spill_returns[OF rng[OF oe h1(2)] rng[OF orv h1(2)], of ?B ?M Exo eb] obtain pd2 where
    h2: "push_spill ?B ?M Exo eb (order_exo ?D) (rev (days_idx ?D)) pd1 = Inr pd2"
        "length pd2 = nat ?D" using h1(2) by auto
  have wr: "\<forall>w\<in>set (waves ?D). 0 \<le> hd w \<and> hd w \<le> ?D - 1" using waves_range[OF assms] by blast
  from review_waves_returns[OF wr assms h2(2)] obtain pd3 where
    h3: "review_pass ?B ?M ?D rb pd2 = Inr pd3" "length pd3 = nat ?D"
    unfolding review_pass_def Let_def by blast
  from push_spill_returns[OF rng[OF om h3(2)] rng[OF orv h3(2)], of ?B ?M Mock mb] obtain pd4 where
    h4: "mock_pass ?B ?M ?D mb pd3 = Inr pd4" "length pd4 = nat ?D"
    unfolding mock_pass_def using h3(2) by auto
  have "placement lb eb rb mb c = Inr pd4"
    unfolding placement_def Let_def using h1(1) h2(1) h3(1) h4(1) by simp
  then show ?thesis using h4(2) by blast
qed





text \<open>
  Below one day nothing is validated either: the table is empty, and the review pass
  indexes it at day 0 and at day \<open>D - 1\<close> unless both are listed as blocked.
\<close>

lemma no_days_index_error:
  assumes "days_available c < 1"
  shows "distribute_minutes_over_days lb eb rb mb c st
           = (if 0 \<in> blocked_set c \<and> days_available c - 1 \<in> blocked_set c then Inr []
              else Inl IndexError)"
proof -
  have di: "days_idx (days_available c) = []" using assms by (simp add: days_idx_def)
  have w: "waves (days_available c) = [[0]]" using assms by (simp add: waves_def)
  have ar: "around (days_available c) 0 = [0, days_available c - 1]"
    using assms by (simp add: around_def)
  have om: "order_mock (days_available c) = []"
    by (simp add: order_mock_def di)
  have oe: "order_exo (days_available c) = []"
    using assms by (simp add: order_exo_def di)
  have l: "push_spill (blocked_set c) (max_minutes_per_day c) k m [] [] [] = Inr []" for k m
    by (simp add: push_spill_def)
  have r: "review_pass (blocked_set c) (max_minutes_per_day c) (days_available c) rb []
             = (if 0 \<in> blocked_set c \<and> days_available c - 1 \<in> blocked_set c then Inr []
                else Inl IndexError)"
    using assms by (auto simp: review_pass_def w ar di push_spill_def py_index_def)
  show ?thesis
    unfolding distribute_minutes_over_days_def placement_def Let_def mock_pass_def
    using assms by (simp add: di om oe l r rebalance_def)
qed

text \<open>
  A start date too close to \<open>date.max\<close>: the allocation goes through, then the final loop
  raises \<open>OverflowError\<close> at the first day whose date does not exist, and nothing is
  returned.
\<close>

lemma start_date_overflow:
  assumes "1 \<le> days_available c" "date_max_ordinal < s + (days_available c - 1)"
  shows "distribute_minutes_over_days lb eb rb mb c (Some s) = Inl OverflowError"
proof -
  from placement_returns[OF assms(1), of lb eb rb mb] obtain pd where
    p: "placement lb eb rb mb c = Inr pd" by blast
  have "days_available c - 1 \<in> set (days_idx (days_available c))"
    using assms(1) by (simp add: days_idx_iff)
  moreover have "date_overflows (Some s) (days_available c - 1)"
    using assms(2) by (simp add: date_overflows_def)
  ultimately have "\<exists>d\<in>set (days_idx (days_available c)). date_overflows (Some s) d" by blast
  from build_items_overflow[OF this] show ?thesis
    using p by (simp add: distribute_minutes_over_days_def)
qed

lemma last_date_overflow_run:
  "distribute_minutes_over_days 10 0 0 0 two_days (Some 3652059) = Inl OverflowError"
  unfolding two_days_def by code_simp

section \<open>The floor after rebalancing\<close>

lemma donate_eligible:
  "donate mind s d pd need =
     (if eligible_donor mind need pd s
      then transfer (nat s) (nat d) [Review, Exo, Learn, Mock] pd need else (pd, need))"
  by (simp add: donate_def eligible_donor_def)

text \<open>What is left of the need once a donor has given from the buckets \<open>ks\<close>.\<close>

lemma transfer_need_left:
  assumes "s \<noteq> d" "s < length pd" "d < length pd" "le_day zero_day (pd ! s)" "0 < need"
          "distinct ks"
  shows "snd (transfer s d ks pd need) = max 0 (need - sum_list (map (\<lambda>k. bucket k (pd ! s)) ks))"
  using assms
proof (induction ks arbitrary: pd need)
  case Nil
  then show ?case by (simp add: transfer.simps)
next
  case (Cons k ks)
  define move where "move = min (bucket k (pd ! s)) need"
  define pd2 where "pd2 = (pd[s := add_to k (- move) (pd ! s)])[d := add_to k move ((pd[s := add_to k (- move) (pd ! s)]) ! d)]"
  note st = transfer_step[OF Cons.prems(1-3) pd2_def]
  have nn: "\<forall>k'. 0 \<le> bucket k' (pd ! s)" using Cons.prems(4) by (simp add: le_day_bucket)
  have mv: "0 \<le> move" "move \<le> need" "move \<le> bucket k (pd ! s)"
    using nn Cons.prems(5) by (simp_all add: move_def)
  have rest0: "0 \<le> sum_list (map (\<lambda>k. bucket k (pd ! s)) ks)"
    using nn by (intro sum_list_nonneg) auto
  have unf: "transfer s d (k # ks) pd need =
        (if need - move \<le> 0 then (pd2, need - move) else transfer s d ks pd2 (need - move))"
    by (simp add: transfer.simps Let_def move_def pd2_def)
  show ?case
  proof (cases "need - move \<le> 0")
    case True
    then have "move = need" "need \<le> bucket k (pd ! s)" using mv by simp_all
    then show ?thesis unfolding unf using True rest0 by simp
  next
    case False
    then have mb: "move = bucket k (pd ! s)" unfolding move_def by linarith
    have z2: "le_day zero_day (pd2 ! s)"
      using Cons.prems(4) mv unfolding st(2) le_day_bucket by (simp add: bucket_add_to)
    have l2: "s < length pd2" "d < length pd2" using st(1) Cons.prems by simp_all
    have same: "map (\<lambda>k'. bucket k' (pd2 ! s)) ks = map (\<lambda>k'. bucket k' (pd ! s)) ks"
      using Cons.prems(6) unfolding st(2) by (auto simp: bucket_add_to)
    have n2: "0 < need - move" using False by simp
    have d2: "distinct ks" using Cons.prems(6) by simp
    show ?thesis
      unfolding unf using False Cons.IH[OF Cons.prems(1) l2 z2 n2 d2] same mb by simp
  qed
qed

lemma day_sum_buckets: "sum_list (map (\<lambda>k. bucket k r) [Review, Exo, Learn, Mock]) = day_sum r"
  by (simp add: day_sum_def)

lemma transfer_full_need:
  assumes "s \<noteq> d" "s < length pd" "d < length pd" "le_day zero_day (pd ! s)" "0 < need"
          "need \<le> day_sum (pd ! s)"
  shows "snd (transfer s d [Review, Exo, Learn, Mock] pd need) = 0"
  using transfer_need_left[OF assms(1-5), of "[Review, Exo, Learn, Mock]"] assms(6)
  unfolding day_sum_buckets by simp

lemma pull_without_donor:
  assumes "\<forall>s\<in>set ss. s \<noteq> d \<longrightarrow> \<not> eligible_donor mind need pd s" "0 < need"
  shows "pull mind d ss pd need = (pd, need)"
  using assms by (induction ss) (simp_all add: donate_eligible)

lemma pull_with_donor:
  assumes "0 \<le> d" "nat d < length pd" "\<forall>s\<in>set ss. 0 \<le> s \<and> nat s < length pd"
          "nonneg_rows pd" "0 < need" "need < mind"
          "\<exists>s\<in>set ss. s \<noteq> d \<and> eligible_donor mind need pd s"
  shows "snd (pull mind d ss pd need) = 0"
  using assms(3,7)
proof (induction ss)
  case Nil
  then show ?case by simp
next
  case (Cons s ss)
  have s: "0 \<le> s" "nat s < length pd" using Cons.prems(1) by simp_all
  have rest: "\<forall>s\<in>set ss. 0 \<le> s \<and> nat s < length pd" using Cons.prems(1) by simp
  show ?case
  proof (cases "s \<noteq> d \<and> eligible_donor mind need pd s")
    case True
    have ne: "nat s \<noteq> nat d" using True s(1) assms(1) by auto
    have zs: "le_day zero_day (pd ! nat s)" using assms(4) s(2) by (simp add: nonneg_rows_def)
    have enough: "need \<le> day_sum (pd ! nat s)"
      using True assms(5,6) unfolding eligible_donor_def by linarith
    obtain q n where t: "transfer (nat s) (nat d) [Review, Exo, Learn, Mock] pd need = (q, n)"
      by (cases "transfer (nat s) (nat d) [Review, Exo, Learn, Mock] pd need")
    have "n = 0"
      using transfer_full_need[OF ne s(2) assms(2) zs assms(5) enough] t by simp
    then show ?thesis using True t by (simp add: donate_eligible)
  next
    case False
    then have ex: "\<exists>s\<in>set ss. s \<noteq> d \<and> eligible_donor mind need pd s"
      using Cons.prems(2) by auto
    have "pull mind d (s # ss) pd need = pull mind d ss pd need"
      using False assms(5) by (auto simp: donate_eligible)
    then show ?thesis using Cons.IH[OF rest ex] by simp
  qed
qed

lemma three_days_run:
  "distribute_minutes_over_days 160 0 0 20 three_days None = Inr three_days_schedule"
  unfolding three_days_def three_days_schedule_def by code_simp

text \<open>
  Claim C6, as stated, promises the floor whenever the capacity is at least the number of
  non-blocked days times the floor.  With three days, cap 80 and floor 60 (capacity 240,
  three floors 180) and a budget of 160 learning and 20 mock minutes, the schedule is
  80, 80, 20: day 2 is non-blocked, nonzero and below the floor, because neither other day
  passes the donor guard (80 - 40 < 60 and 80 \<le> 120).
\<close>

theorem floor_missed_despite_capacity:
  "distribute_minutes_over_days 160 0 0 20 three_days None = Inr three_days_schedule
   \<and> blocked_set three_days = {}
   \<and> 3 * min_minutes_per_day three_days \<le> capacity three_days
   \<and> item_total (three_days_schedule ! 2) = 20
   \<and> 20 < min_minutes_per_day three_days"
proof -
  have "capacity three_days = 240" unfolding three_days_def by code_simp
  then show ?thesis using three_days_run
    by (simp add: three_days_def three_days_schedule_def item_total_def blocked_set_def)
qed

text \<open>
  One step of the rebalancing loop on a needy day: with a donor the day is raised to the
  floor, without one the table is left as it is.
\<close>

lemma needy_step:
  assumes "length pd = nat D" "nonneg_rows pd" "d \<in> set (days_idx D)" "d \<notin> B"
      and "0 < day_sum (pd ! nat d)" "day_sum (pd ! nat d) < mind"
  shows "((\<exists>s\<in>set (days_idx D). s \<noteq> d \<and> eligible_donor mind (mind - day_sum (pd ! nat d)) pd s)
            \<longrightarrow> day_sum (rebalance_day B mind D d pd ! nat d) = mind)
       \<and> (\<not> (\<exists>s\<in>set (days_idx D). s \<noteq> d \<and> eligible_donor mind (mind - day_sum (pd ! nat d)) pd s)
            \<longrightarrow> rebalance_day B mind D d pd = pd)"
proof -
  let ?need = "mind - day_sum (pd ! nat d)"
  let ?ss = "rev (days_idx D)"
  have d: "0 \<le> d" "nat d < length pd" using assms(1,3) by (auto simp: days_idx_iff)
  have ss: "\<forall>s\<in>set ?ss. 0 \<le> s \<and> nat s < length pd" using assms(1) by (auto simp: days_idx_iff)
  have n0: "0 < ?need" and n1: "?need < mind" using assms(5,6) by simp_all
  have rd: "rebalance_day B mind D d pd = fst (pull mind d ?ss pd ?need)"
    using assms(4,5,6) by (simp add: rebalance_day_def)
  have a: "day_sum (rebalance_day B mind D d pd ! nat d) = mind"
    if ex: "\<exists>s\<in>set (days_idx D). s \<noteq> d \<and> eligible_donor mind ?need pd s"
  proof -
    have ex': "\<exists>s\<in>set ?ss. s \<noteq> d \<and> eligible_donor mind ?need pd s" using ex by simp
    have z: "snd (pull mind d ?ss pd ?need) = 0"
      using pull_with_donor[OF d ss assms(2) n0 n1 ex'] .
    have "day_sum (fst (pull mind d ?ss pd ?need) ! nat d) + snd (pull mind d ?ss pd ?need)
            = day_sum (pd ! nat d) + ?need"
      using pull_pulled[OF d ss assms(2) n0, of mind] unfolding pulled_def by blast
    then show ?thesis unfolding rd using z by simp
  qed
  have b: "rebalance_day B mind D d pd = pd"
    if nex: "\<not> (\<exists>s\<in>set (days_idx D). s \<noteq> d \<and> eligible_donor mind ?need pd s)"
  proof -
    have "\<forall>s\<in>set ?ss. s \<noteq> d \<longrightarrow> \<not> eligible_donor mind ?need pd s" using nex by auto
    from pull_without_donor[OF this n0] show ?thesis unfolding rd by simp
  qed
  show ?thesis using a b by blast
qed

text \<open>A row at or below the floor never passes the donor guard, so later steps leave it alone.\<close>

lemma pull_keeps_row:
  assumes "0 \<le> d" "nat d < length pd" "\<forall>s\<in>set ss. 0 \<le> s \<and> nat s < length pd"
          "i \<noteq> nat d" "day_sum (pd ! i) \<le> mind" "0 < need"
  shows "fst (pull mind d ss pd need) ! i = pd ! i"
  using assms(2,3,5,6)
proof (induction ss arbitrary: pd need)
  case Nil
  then show ?case by simp
next
  case (Cons s ss)
  have s: "0 \<le> s" "nat s < length pd" using Cons.prems(2) by simp_all
  have rest: "\<forall>s\<in>set ss. 0 \<le> s \<and> nat s < length pd" using Cons.prems(2) by simp
  show ?case
  proof (cases "s \<noteq> d \<and> eligible_donor mind need pd s")
    case False
    then have "pull mind d (s # ss) pd need = pull mind d ss pd need"
      using Cons.prems(4) by (auto simp: donate_eligible)
    then show ?thesis using Cons.IH[OF Cons.prems(1) rest Cons.prems(3,4)] by simp
  next
    case True
    have ne: "nat s \<noteq> nat d" using True s(1) assms(1) by auto
    have ni: "i \<noteq> nat s"
      using True Cons.prems(3,4) unfolding eligible_donor_def by auto
    obtain q n where t: "transfer (nat s) (nat d) [Review, Exo, Learn, Mock] pd need = (q, n)"
      by (cases "transfer (nat s) (nat d) [Review, Exo, Learn, Mock] pd need")
    note c = transfer_conserves[OF ne s(2) Cons.prems(1), of "[Review, Exo, Learn, Mock]" need]
    have lq: "length q = length pd" and qi: "q ! i = pd ! i"
      using c t ni assms(4) by simp_all
    show ?thesis
    proof (cases "n \<le> 0")
      case True
      then show ?thesis using \<open>s \<noteq> d \<and> eligible_donor mind need pd s\<close> t qi
        by (simp add: donate_eligible)
    next
      case False
      then have n0: "0 < n" by simp
      have r1: "nat d < length q" "\<forall>s\<in>set ss. 0 \<le> s \<and> nat s < length q"
        using lq Cons.prems(1) rest by simp_all
      have qs: "day_sum (q ! i) \<le> mind" using qi Cons.prems(3) by simp
      have "fst (pull mind d ss q n) ! i = q ! i" using Cons.IH[OF r1 qs n0] .
      then show ?thesis using \<open>s \<noteq> d \<and> eligible_donor mind need pd s\<close> t False qi
        by (simp add: donate_eligible)
    qed
  qed
qed

lemma rebalance_day_keeps_row:
  assumes "length pd = nat D" "d \<in> set (days_idx D)" "i \<noteq> nat d" "day_sum (pd ! i) \<le> mind"
  shows "rebalance_day B mind D d pd ! i = pd ! i"
proof -
  have d: "0 \<le> d" "nat d < length pd" using assms(1,2) by (auto simp: days_idx_iff)
  have ss: "\<forall>s\<in>set (rev (days_idx D)). 0 \<le> s \<and> nat s < length pd"
    using assms(1) by (auto simp: days_idx_iff)
  show ?thesis
    unfolding rebalance_day_def Let_def
    using pull_keeps_row[OF d ss assms(3,4)] by simp
qed

lemma fold_keeps_row:
  assumes "length pd = nat D" "set ds \<subseteq> set (days_idx D)" "\<forall>x\<in>set ds. i \<noteq> nat x"
          "day_sum (pd ! i) \<le> mind"
  shows "fold (rebalance_day B mind D) ds pd ! i = pd ! i"
  using assms
proof (induction ds arbitrary: pd)
  case Nil
  then show ?case by simp
next
  case (Cons x ds)
  have x: "x \<in> set (days_idx D)" "i \<noteq> nat x" using Cons.prems(2,3) by simp_all
  let ?q = "rebalance_day B mind D x pd"
  have lq: "length ?q = nat D"
    using rebalance_day_conserves[OF Cons.prems(1) x(1), where B = B and mind = mind] Cons.prems(1)
    by simp
  have qi: "?q ! i = pd ! i" using rebalance_day_keeps_row[OF Cons.prems(1) x Cons.prems(4)] .
  have "fold (rebalance_day B mind D) ds ?q ! i = ?q ! i"
    using Cons.IH[OF lq] Cons.prems(2,3,4) qi by simp
  then show ?case using qi by simp
qed

lemma rebalance_day_nonneg:
  assumes "length pd = nat D" "d \<in> set (days_idx D)" "nonneg_rows pd"
  shows "nonneg_rows (rebalance_day B mind D d pd)"
proof -
  have d: "0 \<le> d" "nat d < length pd" using assms(1,2) by (auto simp: days_idx_iff)
  have ss: "\<forall>s\<in>set (rev (days_idx D)). 0 \<le> s \<and> nat s < length pd"
    using assms(1) by (auto simp: days_idx_iff)
  have "nonneg_rows (fst (pull mind d (rev (days_idx D)) pd (mind - day_sum (pd ! nat d))))"
    if "day_sum (pd ! nat d) < mind"
    using pull_pulled[OF d ss assms(3), of "mind - day_sum (pd ! nat d)" mind] that
    by (simp add: pulled_def)
  then show ?thesis using assms(3) by (simp add: rebalance_day_def Let_def)
qed

lemma fold_nonneg:
  assumes "length pd = nat D" "set ds \<subseteq> set (days_idx D)" "nonneg_rows pd"
  shows "length (fold (rebalance_day B mind D) ds pd) = nat D
         \<and> nonneg_rows (fold (rebalance_day B mind D) ds pd)"
  using assms
proof (induction ds arbitrary: pd)
  case Nil
  then show ?case by simp
next
  case (Cons x ds)
  have x: "x \<in> set (days_idx D)" using Cons.prems(2) by simp
  let ?q = "rebalance_day B mind D x pd"
  have lq: "length ?q = nat D"
    using rebalance_day_conserves[OF Cons.prems(1) x, where B = B and mind = mind] Cons.prems(1)
    by simp
  have nq: "nonneg_rows ?q" using rebalance_day_nonneg[OF Cons.prems(1) x Cons.prems(3)] .
  show ?case using Cons.IH[OF lq _ nq] Cons.prems(2) by simp
qed

lemma days_idx_split:
  assumes "0 \<le> d" "d < D"
  shows "days_idx D = days_idx d @ d # map int [Suc (nat d)..<nat D]"
proof -
  have lt: "nat d < nat D" using assms by simp
  have "[0..<nat D] = [0..<nat d] @ [nat d..<nat D]"
    using lt by (metis le_add_diff_inverse less_imp_le_nat upt_add_eq_append zero_le)
  also have "[nat d..<nat D] = nat d # [Suc (nat d)..<nat D]" using lt by (rule upt_conv_Cons)
  finally show ?thesis using assms(1) by (simp add: days_idx_def)
qed

text \<open>
  Claim C6, amended: take a table with one row per day and non-negative buckets at the
  start of the rebalancing pass, and a non-blocked day \<open>d\<close> whose total is nonzero and
  below the floor when the loop reaches it; let \<open>need\<close> be the floor minus that total.  If
  at that moment some other day \<open>s\<close> passes the donor guard (\<open>total s - need \<ge> min\<close> or
  \<open>total s > min + 60\<close>), day \<open>d\<close> holds exactly the floor in the table the pass returns; if
  no other day passes it, the row of \<open>d\<close> in the returned table is the row it had at that
  moment, still below the floor.  The capacity plays no part.
\<close>

theorem needy_day_reaches_floor_iff_donor:
  assumes "length pd = nat D" "nonneg_rows pd" "d \<in> set (days_idx D)" "d \<notin> B"
      and "0 < day_sum (table_before B mind D d pd ! nat d)"
      and "day_sum (table_before B mind D d pd ! nat d) < mind"
  shows "((\<exists>s\<in>set (days_idx D). s \<noteq> d
             \<and> eligible_donor mind (mind - day_sum (table_before B mind D d pd ! nat d))
                  (table_before B mind D d pd) s)
            \<longrightarrow> day_sum (rebalance B mind D pd ! nat d) = mind)
       \<and> (\<not> (\<exists>s\<in>set (days_idx D). s \<noteq> d
             \<and> eligible_donor mind (mind - day_sum (table_before B mind D d pd ! nat d))
                  (table_before B mind D d pd) s)
            \<longrightarrow> rebalance B mind D pd ! nat d = table_before B mind D d pd ! nat d)"
proof -
  let ?pre = "table_before B mind D d pd"
  let ?mid = "rebalance_day B mind D d ?pre"
  let ?later = "map int [Suc (nat d)..<nat D]"
  have d: "0 \<le> d" "d < D" using assms(3) by (simp_all add: days_idx_iff)
  have sub: "set (days_idx d) \<subseteq> set (days_idx D)" using d by (auto simp: days_idx_iff)
  have pre: "length ?pre = nat D" "nonneg_rows ?pre"
    using fold_nonneg[OF assms(1) sub assms(2)] by (simp_all add: table_before_def)
  have lm: "length ?mid = nat D"
    using rebalance_day_conserves[OF pre(1) assms(3), where B = B and mind = mind] pre(1) by simp
  have fin: "rebalance B mind D pd = fold (rebalance_day B mind D) ?later ?mid"
    unfolding rebalance_def days_idx_split[OF d] table_before_def by simp
  have lsub: "set ?later \<subseteq> set (days_idx D)" by (auto simp: days_idx_iff)
  have lne: "\<forall>x\<in>set ?later. nat d \<noteq> nat x" by auto
  note st = needy_step[OF pre assms(3,4,5,6)]
  have keep: "rebalance B mind D pd ! nat d = ?mid ! nat d" if "day_sum (?mid ! nat d) \<le> mind"
    unfolding fin using fold_keeps_row[OF lm lsub lne that] .
  have a: "day_sum (rebalance B mind D pd ! nat d) = mind"
    if ex: "\<exists>s\<in>set (days_idx D). s \<noteq> d
             \<and> eligible_donor mind (mind - day_sum (?pre ! nat d)) ?pre s"
  proof -
    have m: "day_sum (?mid ! nat d) = mind" using st ex by blast
    then show ?thesis using keep by simp
  qed
  have b: "rebalance B mind D pd ! nat d = ?pre ! nat d"
    if nex: "\<not> (\<exists>s\<in>set (days_idx D). s \<noteq> d
             \<and> eligible_donor mind (mind - day_sum (?pre ! nat d)) ?pre s)"
  proof -
    have m: "?mid = ?pre" using st nex by blast
    then show ?thesis using keep assms(6) by simp
  qed
  show ?thesis using a b by blast
qed

lemma three_day_table_before:
  "table_before {} 60 3 2 three_day_table =
     [\<lparr>learn = 60, exo = 0, review = 0, mock = 0\<rparr>,
      \<lparr>learn = 150, exo = 0, review = 0, mock = 0\<rparr>,
      \<lparr>learn = 30, exo = 0, review = 0, mock = 0\<rparr>]"
  unfolding three_day_table_def by code_simp

lemma three_day_table_final:
  "rebalance {} 60 3 three_day_table =
     [\<lparr>learn = 60, exo = 0, review = 0, mock = 0\<rparr>,
      \<lparr>learn = 120, exo = 0, review = 0, mock = 0\<rparr>,
      \<lparr>learn = 60, exo = 0, review = 0, mock = 0\<rparr>]"
  unfolding three_day_table_def by code_simp

theorem needy_day_reaches_floor_iff_donor_witness:
  "length three_day_table = nat 3 \<and> nonneg_rows three_day_table \<and> 2 \<in> set (days_idx 3)
   \<and> (2::int) \<notin> {}
   \<and> 0 < day_sum (table_before {} 60 3 2 three_day_table ! nat 2)
   \<and> day_sum (table_before {} 60 3 2 three_day_table ! nat 2) < 60
   \<and> eligible_donor 60 (60 - day_sum (table_before {} 60 3 2 three_day_table ! nat 2))
        (table_before {} 60 3 2 three_day_table) 1
   \<and> day_sum (rebalance {} 60 3 three_day_table ! nat 2) = 60
   \<and> map day_sum (rebalance {} 60 3 three_day_table) = [60, 120, 60]"
proof -
  let ?pre = "table_before {} 60 3 2 three_day_table"
  have l: "length three_day_table = nat 3" by (simp add: three_day_table_def)
  have nn: "nonneg_rows three_day_table"
    by (simp add: nonneg_rows_def three_day_table_def le_day_def zero_day_def less_Suc_eq
                  numeral_3_eq_3)
  have m: "(2::int) \<in> set (days_idx 3)" by (simp add: days_idx_iff)
  have nb: "(2::int) \<notin> {}" by simp
  have s2: "day_sum (?pre ! nat 2) = 30"
    unfolding three_day_table_before by (simp add: day_sum_def numeral_2_eq_2)
  have lo: "0 < day_sum (?pre ! nat 2)" and hi: "day_sum (?pre ! nat 2) < 60"
    unfolding s2 by simp_all
  have el: "eligible_donor 60 (60 - day_sum (?pre ! nat 2)) ?pre 1"
    unfolding s2 unfolding three_day_table_before by (simp add: eligible_donor_def day_sum_def)
  have ex: "\<exists>s\<in>set (days_idx 3). s \<noteq> 2 \<and> eligible_donor 60 (60 - day_sum (?pre ! nat 2)) ?pre s"
    using el by (intro bexI[of _ 1]) (simp_all add: days_idx_iff)
  have f: "day_sum (rebalance {} 60 3 three_day_table ! nat 2) = 60"
    using needy_day_reaches_floor_iff_donor[OF l nn m nb lo hi] ex by blast
  have t: "map day_sum (rebalance {} 60 3 three_day_table) = [60, 120, 60]"
    unfolding three_day_table_final by (simp add: day_sum_def)
  show ?thesis using l nn m lo hi el f t by simp
qed

section \<open>The mock pass\<close>








section \<open>The review pass against its description\<close>










section \<open>The five-day scenario\<close>

lemma scenario_run:
  "distribute_minutes_over_days 600 300 120 0 scenario_constraints None = Inr scenario_schedule"
  unfolding scenario_constraints_def scenario_schedule_def by code_simp

text \<open>
  Claim C9, as stated, asks for nonzero exercise minutes on both day 3 and day 4.  The
  exercise pass runs over days 1 to 4 after learning has filled days 0 and 1 and half of
  day 2: it puts 120 minutes on day 2 and the remaining 180 on day 3, so day 4 receives no
  exercise minutes at all.
\<close>

theorem scenario_day4_no_exercises:
  "distribute_minutes_over_days 600 300 120 0 scenario_constraints None = Inr scenario_schedule
   \<and> exercises_min (scenario_schedule ! 4) = 0"
  using scenario_run by (simp add: scenario_schedule_def)

text \<open>
  Claim C9, amended: on the scenario every per-day total is at most 240 (the totals are
  240, 240, 240, 240, 60), all buckets sum to 1020, day 0 holds learning only, and the
  exercise minutes sit on days 2 and 3 (120 and 180) while day 4 has none.
\<close>

theorem scenario_properties:
  "distribute_minutes_over_days 600 300 120 0 scenario_constraints None = Inr scenario_schedule
   \<and> map item_total scenario_schedule = [240, 240, 240, 240, 60]
   \<and> schedule_total scenario_schedule = 1020
   \<and> learn_min (scenario_schedule ! 0) = item_total (scenario_schedule ! 0)
   \<and> map exercises_min scenario_schedule = [0, 0, 120, 180, 0]"
  using scenario_run by (simp add: scenario_schedule_def schedule_total_def item_total_def)

end
